theory Spec2Isabelle
  imports Complex_Main
begin

section \<open>Link prediction with a graph convolutional network: the data model\<close>

text \<open>
  The notebook works on SciPy sparse matrices and NumPy arrays. A matrix is modelled by
  its shape and its entries; an entry that a sparse matrix does not store is 0. Indices
  are 0-based as in the source, and only the entries inside the shape are ever read.
  The entries are real numbers. The weight initialisation and the stopping test of the
  training loop are modelled with floating-point rounding (next section); the
  normalisation, the decoder and the loss are modelled over the reals.
\<close>

record matrix =
  nrows :: nat
  ncols :: nat
  ent :: "nat \<Rightarrow> nat \<Rightarrow> real"

text \<open>
  The exceptions of the source. \<open>IndexError\<close> and \<open>ValueError\<close> are raised by
  NumPy, SciPy and scikit-learn, \<open>ZeroDivisionError\<close> by Python's float division.
  \<open>FloatDivideByZero\<close> and \<open>FloatInvalid\<close> stand for a floating-point result that
  holds \<open>inf\<close> or \<open>nan\<close> (NumPy's divide-by-zero and invalid-value signals): NumPy
  warns and goes on, but the reals cannot hold such a result.
  \<open>InsufficientEdgesError\<close> is the error the specification names for an edge split
  of a graph that is too small.
\<close>

datatype error =
  IndexError | ValueError | ZeroDivisionError | FloatDivideByZero | FloatInvalid
  | InsufficientEdgesError

type_synonym edge = "nat \<times> nat"

section \<open>Floating-point rounding\<close>

text \<open>
  Where a claim depends on it, a floating-point number is modelled as the real number
  it denotes, and an operation as the exact operation followed by rounding to the
  nearest number of the format, ties to even (IEEE 754). \<open>float_round p emin\<close> rounds
  to the format with \<open>p\<close> bits of precision and least exponent \<open>emin\<close>; below
  \<open>2 ^ emin\<close> the spacing stays that of the lowest binade (subnormal numbers).
  Overflow to \<open>inf\<close> is not modelled: the numbers rounded in this theory are below 5.
\<close>

definition round_half_even :: "real \<Rightarrow> int" where
  "round_half_even x =
     (if x - of_int \<lfloor>x\<rfloor> < 1 / 2 then \<lfloor>x\<rfloor>
      else if x - of_int \<lfloor>x\<rfloor> > 1 / 2 then \<lfloor>x\<rfloor> + 1
      else if even \<lfloor>x\<rfloor> then \<lfloor>x\<rfloor> else \<lfloor>x\<rfloor> + 1)"

definition float_exponent :: "int \<Rightarrow> real \<Rightarrow> int" where
  "float_exponent emin x = max \<lfloor>log 2 \<bar>x\<bar>\<rfloor> emin"

definition float_ulp :: "nat \<Rightarrow> int \<Rightarrow> real \<Rightarrow> real" where
  "float_ulp p emin x = 2 powr of_int (float_exponent emin x - int p + 1)"

definition float_round :: "nat \<Rightarrow> int \<Rightarrow> real \<Rightarrow> real" where
  "float_round p emin x =
     (if x = 0 then 0
      else sgn x * (float_ulp p emin x * of_int (round_half_even (\<bar>x\<bar> / float_ulp p emin x))))"

text \<open>\<open>np.float32\<close> and \<open>tf.float32\<close>; Python's \<open>float\<close> and \<open>np.float64\<close>.\<close>

definition float32_round :: "real \<Rightarrow> real" where
  "float32_round x = float_round 24 (- 126) x"

definition float64_round :: "real \<Rightarrow> real" where
  "float64_round x = float_round 53 (- 1022) x"

text \<open>
  The numbers of a format: an integer of fewer than \<open>p\<close> bits times a power of two
  that is not below the least spacing.
\<close>

definition on_grid :: "nat \<Rightarrow> int \<Rightarrow> real \<Rightarrow> bool" where
  "on_grid p emin y =
     (\<exists>m k. y = of_int m * 2 powr of_int k \<and> \<bar>m\<bar> < 2 ^ p \<and> emin - int p + 1 \<le> k)"

text \<open>
  A \<open>np.float32\<close> value as a session returns it: a number, an infinity or \<open>nan\<close>.
\<close>

datatype f32 = Finite real | PosInf | NegInf | NaN

section \<open>Sparse matrices\<close>

text \<open>
  \<open>coords m\<close> lists the coordinates of the stored entries of \<open>m\<close>, row by row
  (the order of a CSR matrix converted to COO). The stored entries are the nonzero ones.
\<close>

definition coords :: "matrix \<Rightarrow> edge list" where
  "coords m = [(i, j). i \<leftarrow> [0..<nrows m], j \<leftarrow> [0..<ncols m], ent m i j \<noteq> 0]"

text \<open>\<open>sparse_to_tuple\<close>: the coordinates, the values and the shape.\<close>

definition sparse_to_tuple :: "matrix \<Rightarrow> edge list \<times> real list \<times> (nat \<times> nat)" where
  "sparse_to_tuple sparse_mx =
     (coords sparse_mx,
      map (\<lambda>(i, j). ent sparse_mx i j) (coords sparse_mx),
      (nrows sparse_mx, ncols sparse_mx))"

text \<open>
  \<open>adj - sp.dia_matrix((adj.diagonal()[np.newaxis, :], [0]), shape=adj.shape)\<close> followed
  by \<open>eliminate_zeros\<close>: the diagonal is cleared.
\<close>

definition remove_diag :: "matrix \<Rightarrow> matrix" where
  "remove_diag adj = adj\<lparr>ent := (\<lambda>i j. if i = j then 0 else ent adj i j)\<rparr>"

text \<open>\<open>sp.triu\<close>: the entries on and above the diagonal.\<close>

definition triu :: "matrix \<Rightarrow> matrix" where
  "triu adj = adj\<lparr>ent := (\<lambda>i j. if i \<le> j then ent adj i j else 0)\<rparr>"

text \<open>\<open>sp.eye(n)\<close>, matrix addition and transposition.\<close>

definition eye :: "nat \<Rightarrow> matrix" where
  "eye n = \<lparr>nrows = n, ncols = n, ent = (\<lambda>i j. if i = j then 1 else 0)\<rparr>"

definition mat_add :: "matrix \<Rightarrow> matrix \<Rightarrow> error + matrix" where
  "mat_add a b =
     (if nrows a = nrows b \<and> ncols a = ncols b
      then Inr \<lparr>nrows = nrows a, ncols = ncols a, ent = (\<lambda>i j. ent a i j + ent b i j)\<rparr>
      else Inl ValueError)"

definition mat_transpose :: "matrix \<Rightarrow> matrix" where
  "mat_transpose a = \<lparr>nrows = ncols a, ncols = nrows a, ent = (\<lambda>i j. ent a j i)\<rparr>"

section \<open>Splitting the edges: \<open>mask_test_edges\<close>\<close>

text \<open>
  The result of \<open>mask_test_edges\<close>:
  \<open>adj_train, train_edges, val_edges, val_edges_false, test_edges, test_edges_false\<close>.
\<close>

record split =
  adj_train :: matrix
  train_edges :: "edge list"
  val_edges :: "edge list"
  val_edges_false :: "edge list"
  test_edges :: "edge list"
  test_edges_false :: "edge list"

text \<open>
  \<open>ismember(a, b)\<close>: some row of the array \<open>b\<close> equals the pair \<open>a\<close>
  (\<open>np.any(np.all((a - b[:, None]) == 0, axis=-1))\<close>).
\<close>

definition ismember :: "edge \<Rightarrow> edge list \<Rightarrow> bool" where
  "ismember a b = list_ex (\<lambda>row. row = a) b"

text \<open>
  \<open>np.delete(arr, obj, axis=0)\<close> with \<open>obj = np.hstack([test_edge_idx, val_edge_idx])\<close>.
  When both index lists are empty, \<open>np.hstack\<close> returns an empty array of dtype
  float64. NumPy from version 1.19 on refuses a float array as an index and raises
  IndexError; older versions cast it to integers. The flag \<open>legacy\<close> selects the
  older behaviour. The notebook's own environment (NumPy 2.0.2) has \<open>legacy = False\<close>.
\<close>

definition np_delete :: "bool \<Rightarrow> 'a list \<Rightarrow> nat list \<Rightarrow> error + 'a list" where
  "np_delete legacy arr obj =
     (if obj = [] \<and> \<not> legacy then Inl IndexError
      else Inr (map (\<lambda>k. arr ! k) (filter (\<lambda>k. k \<notin> set obj) [0..<length arr])))"

text \<open>
  The body of the \<open>for\<close> loop that samples the test negatives: the pair
  \<open>(idx_i, idx_j)\<close> is skipped when it is a self-loop, when it is a row of
  \<open>edges_all\<close>, or when it or its mirror image is already chosen; otherwise it is
  appended.
\<close>

definition test_accept :: "edge list \<Rightarrow> edge list \<Rightarrow> edge \<Rightarrow> edge list" where
  "test_accept edges_all test_false p =
     (case p of (idx_i, idx_j) \<Rightarrow>
        if idx_i = idx_j then test_false
        else if ismember (idx_i, idx_j) edges_all then test_false
        else if test_false \<noteq> [] \<and> ismember (idx_j, idx_i) test_false
          then test_false
        else if test_false \<noteq> [] \<and> ismember (idx_i, idx_j) test_false
          then test_false
        else test_false @ [(idx_i, idx_j)])"

text \<open>
  The body of the \<open>for\<close> loop that samples the validation negatives: the pair is
  checked in both orientations against \<open>train_edges\<close> and \<open>val_edges\<close>, and against
  the validation negatives chosen so far.
\<close>

definition val_accept :: "edge list \<Rightarrow> edge list \<Rightarrow> edge list \<Rightarrow> edge \<Rightarrow> edge list" where
  "val_accept train_es val_es val_false p =
     (case p of (idx_i, idx_j) \<Rightarrow>
        if idx_i = idx_j then val_false
        else if ismember (idx_i, idx_j) train_es then val_false
        else if ismember (idx_j, idx_i) train_es then val_false
        else if ismember (idx_i, idx_j) val_es then val_false
        else if ismember (idx_j, idx_i) val_es then val_false
        else if val_false \<noteq> [] \<and> ismember (idx_j, idx_i) val_false
          then val_false
        else if val_false \<noteq> [] \<and> ismember (idx_i, idx_j) val_false
          then val_false
        else val_false @ [(idx_i, idx_j)])"

text \<open>
  The \<open>while\<close> loop around it, the same for both samplers:
  \<^verbatim>\<open>
  while len(chosen) < target:
      n_rnd = target - len(chosen)
      rnd = np.random.randint(0, adj.shape[0], size=2 * n_rnd)
      idxs_i = rnd[:n_rnd]
      idxs_j = rnd[n_rnd:]
      for i in range(n_rnd): ...
  \<close>
  The random numbers are an input: \<open>draws\<close> is the sequence of numbers that the
  successive calls of \<open>randint\<close> return, and each call takes \<open>2 * n_rnd\<close> of them.
  The loop can run forever (every pair may be rejected); the result \<open>None\<close> says that
  the loop has not finished within the given draws. \<open>randint(0, 0, ...)\<close> raises
  ValueError. The loop returns the chosen pairs and the draws that are left.
\<close>

function rejection_loop ::
  "(edge list \<Rightarrow> edge \<Rightarrow> edge list) \<Rightarrow> nat \<Rightarrow> nat \<Rightarrow> nat list \<Rightarrow> edge list
     \<Rightarrow> (error + edge list \<times> nat list) option" where
  "rejection_loop accept n target draws chosen =
     (if length chosen < target then
        (if n = 0 then Some (Inl ValueError)
         else if length draws < 2 * (target - length chosen) then None
         else
           (let n_rnd = target - length chosen;
                rnd = take (2 * n_rnd) draws;
                idxs_i = take n_rnd rnd;
                idxs_j = drop n_rnd rnd
            in rejection_loop accept n target (drop (2 * n_rnd) draws)
                 (foldl accept chosen (zip idxs_i idxs_j))))
      else Some (Inr (chosen, draws)))"
  by pat_completeness auto
termination
  by (relation "measure (\<lambda>(accept, n, target, draws, chosen). length draws)") auto

declare rejection_loop.simps [simp del]

text \<open>
  \<open>sp.csr_matrix((data, (train_edges[:, 0], train_edges[:, 1])), shape=adj.shape)\<close>
  with \<open>data\<close> all ones: an entry counts how often its coordinate is listed.
\<close>

definition csr_of_edges :: "edge list \<Rightarrow> nat \<Rightarrow> nat \<Rightarrow> matrix" where
  "csr_of_edges es r c =
     \<lparr>nrows = r, ncols = c, ent = (\<lambda>i j. real (count_list es (i, j)))\<rparr>"

text \<open>
  \<open>mask_test_edges(adj)\<close>. \<open>perm\<close> is \<open>all_edge_idx\<close> after
  \<open>np.random.shuffle\<close>, a permutation of \<open>range(edges.shape[0])\<close> (\<open>is_shuffle\<close>);
  every index that is read from it is then a valid row of \<open>edges\<close>. \<open>draws\<close> are the
  numbers that \<open>np.random.randint\<close> returns, first to the test sampler and then to the
  validation sampler.
\<close>

definition is_shuffle :: "nat list \<Rightarrow> nat \<Rightarrow> bool" where
  "is_shuffle perm n = (distinct perm \<and> set perm = {0..<n})"

definition mask_test_edges ::
  "bool \<Rightarrow> matrix \<Rightarrow> nat list \<Rightarrow> nat list \<Rightarrow> (error + split) option" where
  "mask_test_edges legacy adj0 perm draws =
     (let adj = remove_diag adj0;
          edges = fst (sparse_to_tuple (triu adj));
          edges_all = fst (sparse_to_tuple adj);
          num_test = length edges div 50;
          num_val = length edges div 50;
          val_edge_idx = take num_val perm;
          test_edge_idx = take num_test (drop num_val perm);
          test_es = map (\<lambda>k. edges ! k) test_edge_idx;
          val_es = map (\<lambda>k. edges ! k) val_edge_idx
      in case np_delete legacy edges (test_edge_idx @ val_edge_idx) of
           Inl e \<Rightarrow> Some (Inl e)
         | Inr train_es \<Rightarrow>
             (case rejection_loop (test_accept edges_all) (nrows adj) (length test_es) draws [] of
                None \<Rightarrow> None
              | Some (Inl e) \<Rightarrow> Some (Inl e)
              | Some (Inr (test_false, draws')) \<Rightarrow>
                  (case rejection_loop (val_accept train_es val_es) (nrows adj)
                          (length val_es) draws' [] of
                     None \<Rightarrow> None
                   | Some (Inl e) \<Rightarrow> Some (Inl e)
                   | Some (Inr (val_false, draws'')) \<Rightarrow>
                       (let a = csr_of_edges train_es (nrows adj) (ncols adj) in
                        case mat_add a (mat_transpose a) of
                          Inl e \<Rightarrow> Some (Inl e)
                        | Inr a_train \<Rightarrow>
                            Some (Inr \<lparr>adj_train = a_train, train_edges = train_es,
                                       val_edges = val_es, val_edges_false = val_false,
                                       test_edges = test_es,
                                       test_edges_false = test_false\<rparr>)))))"

text \<open>\<open>edges.shape[0]\<close>: the number of edges that \<open>mask_test_edges\<close> splits.\<close>

definition num_edges_triu :: "matrix \<Rightarrow> nat" where
  "num_edges_triu adj0 = length (fst (sparse_to_tuple (triu (remove_diag adj0))))"

text \<open>
  A reading of the outcome of \<open>mask_test_edges\<close>: \<open>on_split f\<close> applies \<open>f\<close> to the
  returned split and keeps an exception or a missing result as it is. \<open>edge_lists\<close>
  are the five edge lists of a split, in the order of the \<open>return\<close> statement.
\<close>

definition on_split :: "(split \<Rightarrow> 'a) \<Rightarrow> (error + split) option \<Rightarrow> (error + 'a) option" where
  "on_split f outcome = map_option (map_sum id f) outcome"

definition edge_lists :: "split \<Rightarrow> edge list \<times> edge list \<times> edge list \<times> edge list \<times> edge list" where
  "edge_lists r =
     (train_edges r, val_edges r, val_edges_false r, test_edges r, test_edges_false r)"

text \<open>
  What the two samplers check of the pairs they choose. Test negatives: no self-loop,
  no row of \<open>edges_all\<close>, no pair chosen twice or in both orientations. Validation
  negatives: no self-loop, in neither orientation a row of \<open>train_edges\<close> or
  \<open>val_edges\<close>, no pair chosen twice or in both orientations.
\<close>

definition test_negatives_ok :: "edge list \<Rightarrow> edge list \<Rightarrow> bool" where
  "test_negatives_ok edges_all c =
     (distinct c \<and> (\<forall>p\<in>set c. fst p \<noteq> snd p \<and> p \<notin> set edges_all \<and> (snd p, fst p) \<notin> set c))"

definition val_negatives_ok :: "edge list \<Rightarrow> edge list \<Rightarrow> edge list \<Rightarrow> bool" where
  "val_negatives_ok train_es val_es c =
     (distinct c \<and>
      (\<forall>p\<in>set c. fst p \<noteq> snd p \<and> p \<notin> set train_es \<and> (snd p, fst p) \<notin> set train_es
                   \<and> p \<notin> set val_es \<and> (snd p, fst p) \<notin> set val_es
                   \<and> (snd p, fst p) \<notin> set c))"

subsection \<open>A graph with 56 edges\<close>

text \<open>
  Twelve nodes: the nodes 0 to 10 are pairwise connected (55 edges) and node 11 is
  connected to node 10 only. The pairs \<open>(i, 11)\<close> with \<open>i < 10\<close> are the non-edges.
\<close>

definition example_graph :: matrix where
  "example_graph =
     \<lparr>nrows = 12, ncols = 12,
      ent = (\<lambda>i j. if i \<noteq> j \<and> ((i < 11 \<and> j < 11) \<or> (i = 10 \<and> j = 11) \<or> (i = 11 \<and> j = 10))
                    then 1 else 0)\<rparr>"

text \<open>A graph with three nodes and no edge.\<close>

definition empty_graph :: matrix where
  "empty_graph = \<lparr>nrows = 3, ncols = 3, ent = (\<lambda>i j. 0)\<rparr>"

text \<open>
  The edge lists that the split of the graph with 56 edges returns when the shuffle
  leaves \<open>all_edge_idx\<close> in order and \<open>randint\<close> returns 0, 11 and then 0, 2.
\<close>

definition example_lists :: "edge list \<times> edge list \<times> edge list \<times> edge list \<times> edge list" where
  "example_lists =
     ([(0, 3), (0, 4), (0, 5), (0, 6), (0, 7), (0, 8), (0, 9), (0, 10),
       (1, 2), (1, 3), (1, 4), (1, 5), (1, 6), (1, 7), (1, 8), (1, 9), (1, 10),
       (2, 3), (2, 4), (2, 5), (2, 6), (2, 7), (2, 8), (2, 9), (2, 10),
       (3, 4), (3, 5), (3, 6), (3, 7), (3, 8), (3, 9), (3, 10),
       (4, 5), (4, 6), (4, 7), (4, 8), (4, 9), (4, 10),
       (5, 6), (5, 7), (5, 8), (5, 9), (5, 10),
       (6, 7), (6, 8), (6, 9), (6, 10), (7, 8), (7, 9), (7, 10),
       (8, 9), (8, 10), (9, 10), (10, 11)],
      [(0, 1)], [(0, 2)], [(0, 2)], [(0, 11)])"


section \<open>Normalising the adjacency matrix: \<open>preprocess_graph\<close>\<close>

text \<open>\<open>adj_.sum(1)\<close>: the sum of every row.\<close>

definition row_sums :: "matrix \<Rightarrow> real list" where
  "row_sums m = map (\<lambda>i. sum_list (map (\<lambda>j. ent m i j) [0..<ncols m])) [0..<nrows m]"

text \<open>
  \<open>np.power(rowsum, -0.5)\<close>, elementwise. On 0 NumPy signals a division by zero (the
  result is \<open>inf\<close>), on a negative number an invalid value (\<open>nan\<close>).
\<close>

definition np_power_neg_half :: "real list \<Rightarrow> error + real list" where
  "np_power_neg_half xs =
     (if list_ex (\<lambda>x. x = 0) xs then Inl FloatDivideByZero
      else if list_ex (\<lambda>x. x < 0) xs then Inl FloatInvalid
      else Inr (map (\<lambda>x. x powr (- 0.5)) xs))"

text \<open>\<open>sp.diags(v)\<close>: the square matrix with \<open>v\<close> on its diagonal.\<close>

definition diags :: "real list \<Rightarrow> matrix" where
  "diags v =
     \<lparr>nrows = length v, ncols = length v,
      ent = (\<lambda>i j. if i = j \<and> i < length v then v ! i else 0)\<rparr>"

text \<open>\<open>a.dot(b)\<close>: the matrix product; the inner dimensions must agree.\<close>

definition mat_dot :: "matrix \<Rightarrow> matrix \<Rightarrow> error + matrix" where
  "mat_dot a b =
     (if ncols a = nrows b
      then Inr \<lparr>nrows = nrows a, ncols = ncols b,
                ent = (\<lambda>i j. sum_list (map (\<lambda>k. ent a i k * ent b k j) [0..<ncols a]))\<rparr>
      else Inl ValueError)"

definition preprocess_graph :: "matrix \<Rightarrow> error + edge list \<times> real list \<times> (nat \<times> nat)" where
  "preprocess_graph adj =
     (case mat_add adj (eye (nrows adj)) of
        Inl e \<Rightarrow> Inl e
      | Inr adj_ \<Rightarrow>
          (case np_power_neg_half (row_sums adj_) of
             Inl e \<Rightarrow> Inl e
           | Inr d \<Rightarrow>
               (let degree_mat_inv_sqrt = diags d in
                case mat_dot adj_ degree_mat_inv_sqrt of
                  Inl e \<Rightarrow> Inl e
                | Inr m \<Rightarrow>
                    (case mat_dot (mat_transpose m) degree_mat_inv_sqrt of
                       Inl e \<Rightarrow> Inl e
                     | Inr adj_normalized \<Rightarrow> Inr (sparse_to_tuple adj_normalized)))))"

text \<open>
  Reading a matrix back from its \<open>(coords, values, shape)\<close> form: the value stored at
  a coordinate, and 0 where nothing is stored.
\<close>

definition tuple_ent :: "edge list \<times> real list \<times> (nat \<times> nat) \<Rightarrow> nat \<Rightarrow> nat \<Rightarrow> real" where
  "tuple_ent t i j =
     (case map_of (zip (fst t) (fst (snd t))) (i, j) of None \<Rightarrow> 0 | Some v \<Rightarrow> v)"

text \<open>
  The normalised adjacency as the specification writes it:
  \<open>D^(-1/2) (A + I) D^(-1/2)\<close>, where \<open>D\<close> is the diagonal matrix of the degrees of
  \<open>A + I\<close>. \<open>self_loop_degree adj i\<close> is the \<open>i\<close>-th row sum of \<open>A + I\<close>.
\<close>

definition self_loop_degree :: "matrix \<Rightarrow> nat \<Rightarrow> real" where
  "self_loop_degree adj i =
     sum_list (map (\<lambda>k. ent adj i k + (if i = k then 1 else 0)) [0..<ncols adj])"

definition sym_normalized :: "matrix \<Rightarrow> nat \<Rightarrow> nat \<Rightarrow> real" where
  "sym_normalized adj i j =
     (1 / sqrt (self_loop_degree adj i))
     * (ent adj i j + (if i = j then 1 else 0))
     * (1 / sqrt (self_loop_degree adj j))"

text \<open>
  The adjacency matrix of an undirected, unweighted graph without self-loops: square,
  symmetric, every entry 0 or 1, and a zero diagonal. \<open>is_nonneg_square\<close> is the weaker
  condition that the matrix is square and no entry is negative.
\<close>

definition is_adjacency :: "matrix \<Rightarrow> bool" where
  "is_adjacency adj =
     (nrows adj = ncols adj \<and>
      list_all (\<lambda>i. list_all (\<lambda>j. (ent adj i j = 0 \<or> ent adj i j = 1)
                                  \<and> ent adj i j = ent adj j i) [0..<ncols adj])
        [0..<nrows adj] \<and>
      list_all (\<lambda>i. ent adj i i = 0) [0..<nrows adj])"

definition is_nonneg_square :: "matrix \<Rightarrow> bool" where
  "is_nonneg_square adj =
     (nrows adj = ncols adj \<and>
      list_all (\<lambda>i. list_all (\<lambda>j. 0 \<le> ent adj i j) [0..<ncols adj]) [0..<nrows adj])"

text \<open>A node is isolated when its row of the adjacency matrix is zero.\<close>

definition isolated :: "matrix \<Rightarrow> nat \<Rightarrow> bool" where
  "isolated adj i = list_all (\<lambda>j. ent adj i j = 0) [0..<ncols adj]"

section \<open>The model: weights and decoder\<close>

text \<open>
  \<open>tf.random_uniform(shape, minval, maxval, dtype=tf.float32)\<close> computes
  \<open>rnd * (maxval - minval) + minval\<close> in float32, where \<open>rnd\<close> is a uniform draw
  from \<open>[0, 1)\<close>: the difference, the product and the sum are each rounded to
  float32. The draws \<open>u\<close> are an input; \<open>minval\<close> and \<open>maxval\<close> are float32 numbers.
\<close>

definition random_uniform :: "nat \<Rightarrow> nat \<Rightarrow> real \<Rightarrow> real \<Rightarrow> (nat \<Rightarrow> nat \<Rightarrow> real) \<Rightarrow> matrix" where
  "random_uniform r c minval maxval u =
     \<lparr>nrows = r, ncols = c,
      ent = (\<lambda>i j. float32_round
                      (float32_round (u i j * float32_round (maxval - minval)) + minval))\<rparr>"

definition unit_draws :: "nat \<Rightarrow> nat \<Rightarrow> (nat \<Rightarrow> nat \<Rightarrow> real) \<Rightarrow> bool" where
  "unit_draws r c u =
     list_all (\<lambda>i. list_all (\<lambda>j. 0 \<le> u i j \<and> u i j < 1) [0..<c]) [0..<r]"

text \<open>
  \<open>init_range = np.sqrt(6.0 / (input_dim + output_dim))\<close> is computed in float64: the
  integer is converted, the quotient is rounded and the square root is rounded.
  \<open>6.0 / (input_dim + output_dim)\<close> raises ZeroDivisionError when both dimensions are 0.
\<close>

definition glorot_init_range :: "nat \<Rightarrow> nat \<Rightarrow> real" where
  "glorot_init_range input_dim output_dim =
     float64_round (sqrt (float64_round (6 / float64_round (real (input_dim + output_dim)))))"

text \<open>
  \<open>weight_variable_glorot\<close>. \<open>minval=-init_range\<close> and \<open>maxval=init_range\<close> are
  converted to float32 when TensorFlow takes them as arguments of a float32 operation.
\<close>

definition weight_variable_glorot ::
  "nat \<Rightarrow> nat \<Rightarrow> (nat \<Rightarrow> nat \<Rightarrow> real) \<Rightarrow> error + matrix" where
  "weight_variable_glorot input_dim output_dim u =
     (if input_dim + output_dim = 0 then Inl ZeroDivisionError
      else
        (let init_range = glorot_init_range input_dim output_dim
         in Inr (random_uniform input_dim output_dim
                   (float32_round (- init_range)) (float32_round init_range) u)))"

text \<open>The float32 bound of the initial weights: \<open>init_range\<close> rounded to float32.\<close>

definition glorot_range32 :: "nat \<Rightarrow> nat \<Rightarrow> real" where
  "glorot_range32 input_dim output_dim = float32_round (glorot_init_range input_dim output_dim)"

text \<open>
  The weights that \<open>GCNModel.build\<close> creates: \<open>GraphConvolutionSparse\<close> with shape
  \<open>[input_dim, FLAGS.hidden1]\<close> and \<open>GraphConvolution\<close> with shape
  \<open>[FLAGS.hidden1, FLAGS.hidden2]\<close>.
\<close>

definition GCNModel_weights ::
  "nat \<Rightarrow> nat \<Rightarrow> nat \<Rightarrow> (nat \<Rightarrow> nat \<Rightarrow> real) \<Rightarrow> (nat \<Rightarrow> nat \<Rightarrow> real) \<Rightarrow> error + matrix \<times> matrix" where
  "GCNModel_weights input_dim hidden1 hidden2 u1 u2 =
     (case weight_variable_glorot input_dim hidden1 u1 of
        Inl e \<Rightarrow> Inl e
      | Inr w1 \<Rightarrow>
          (case weight_variable_glorot hidden1 hidden2 u2 of
             Inl e \<Rightarrow> Inl e
           | Inr w2 \<Rightarrow> Inr (w1, w2)))"

text \<open>
  \<open>tf.nn.dropout(x, keep_prob)\<close>: a kept element is scaled by \<open>1 / keep_prob\<close>, a
  dropped one is 0; \<open>keep_mask\<close> says which elements are kept (a random input). With
  \<open>keep_prob = 1\<close> the input is returned as it is, and a \<open>keep_prob\<close> outside
  \<open>(0, 1]\<close> raises ValueError.
\<close>

definition tf_dropout :: "(nat \<Rightarrow> nat \<Rightarrow> bool) \<Rightarrow> matrix \<Rightarrow> real \<Rightarrow> error + matrix" where
  "tf_dropout keep_mask x keep_prob =
     (if keep_prob \<le> 0 \<or> 1 < keep_prob then Inl ValueError
      else if keep_prob = 1 then Inr x
      else Inr (x\<lparr>ent := (\<lambda>i j. if keep_mask i j then ent x i j / keep_prob else 0)\<rparr>))"

text \<open>\<open>tf.reshape(x, [-1])\<close>: the entries row by row.\<close>

definition flatten :: "matrix \<Rightarrow> real list" where
  "flatten x = [ent x i j. i \<leftarrow> [0..<nrows x], j \<leftarrow> [0..<ncols x]]"

definition sigmoid :: "real \<Rightarrow> real" where
  "sigmoid x = 1 / (1 + exp (- x))"

text \<open>
  \<open>InnerProductDecoder.__call__\<close>, with the attributes \<open>dropout\<close> and \<open>act\<close> of the
  layer. The constructor's defaults are \<open>dropout=0.\<close> and \<open>act=tf.nn.sigmoid\<close>.
\<close>

definition InnerProductDecoder_call ::
  "real \<Rightarrow> (real \<Rightarrow> real) \<Rightarrow> (nat \<Rightarrow> nat \<Rightarrow> bool) \<Rightarrow> matrix \<Rightarrow> error + real list" where
  "InnerProductDecoder_call dropout act keep_mask inputs =
     (case tf_dropout keep_mask inputs (1 - dropout) of
        Inl e \<Rightarrow> Inl e
      | Inr inputs' \<Rightarrow>
          (case mat_dot inputs' (mat_transpose inputs') of
             Inl e \<Rightarrow> Inl e
           | Inr x \<Rightarrow> Inr (map act (flatten x))))"

definition InnerProductDecoder_default ::
  "(nat \<Rightarrow> nat \<Rightarrow> bool) \<Rightarrow> matrix \<Rightarrow> error + real list" where
  "InnerProductDecoder_default keep_mask inputs =
     InnerProductDecoder_call 0 sigmoid keep_mask inputs"

text \<open>
  \<open>self.reconstructions\<close> in \<open>GCNModel.build\<close>: the decoder is created with
  \<open>act=lambda x: x\<close> and without a \<open>dropout\<close> argument, and applied to
  \<open>self.embeddings\<close>.
\<close>

definition GCNModel_reconstructions :: "(nat \<Rightarrow> nat \<Rightarrow> bool) \<Rightarrow> matrix \<Rightarrow> error + real list" where
  "GCNModel_reconstructions keep_mask embeddings =
     InnerProductDecoder_call 0 (\<lambda>x. x) keep_mask embeddings"

text \<open>The Gram matrix \<open>E \<cdot> E^T\<close> of the rows of \<open>E\<close>.\<close>

definition gram :: "matrix \<Rightarrow> matrix" where
  "gram e =
     \<lparr>nrows = nrows e, ncols = nrows e,
      ent = (\<lambda>i j. sum_list (map (\<lambda>k. ent e i k * ent e j k) [0..<ncols e]))\<rparr>"

section \<open>The loss: \<open>Optimizer\<close>\<close>









section \<open>The training loop\<close>

text \<open>
  \<^verbatim>\<open>
  epoch = 0
  temp_train_loss = 1.0
  while (epoch < FLAGS.epochs) and (temp_train_loss > 0.001):
      ...
      _, avg_cost = sess.run([opt.opt_op, opt.cost], feed_dict=feed_dict)
      roc_curr, ap_curr, labels_all, pred_all = get_roc_score(val_edges, val_edges_false)
      print("Epoch:", '%04d' % (epoch + 1), "train_loss=", "{:.5f}".format(avg_cost), ...)
      epoch = epoch + 1
      temp_train_loss = avg_cost
  \<close>
  \<open>avg_cost\<close> is a \<open>np.float32\<close>. NumPy 2 (the notebook runs NumPy 2.0.2) compares it
  with the Python float \<open>0.001\<close> in float32: the literal, a float64, is converted to
  float32 first. An infinite loss compares as infinities do, and \<open>nan > 0.001\<close> is
  false. Before the first epoch \<open>temp_train_loss\<close> is the Python float 1.0, for which
  the test is true as it is for the float32 number 1.
\<close>

definition loss_threshold :: real where
  "loss_threshold = float32_round (float64_round (1 / 1000))"

fun exceeds_threshold :: "f32 \<Rightarrow> bool" where
  "exceeds_threshold (Finite x) = (loss_threshold < x)"
| "exceeds_threshold PosInf = True"
| "exceeds_threshold NegInf = False"
| "exceeds_threshold NaN = False"

text \<open>
  The body of the loop is a parameter \<open>run_epoch\<close>: from the session state it gives
  the new session state and \<open>avg_cost\<close>, or the exception that the optimisation step or
  the validation scoring raises. \<open>reported\<close> collects the training losses that the loop
  prints, one per epoch that ran.
\<close>

record 's loop_state =
  epoch :: int
  temp_train_loss :: f32
  sess :: 's
  reported :: "f32 list"

function train_loop ::
  "int \<Rightarrow> ('s \<Rightarrow> error + 's \<times> f32) \<Rightarrow> 's loop_state \<Rightarrow> error + 's loop_state" where
  "train_loop epochs run_epoch st =
     (if epoch st < epochs \<and> exceeds_threshold (temp_train_loss st) then
        (case run_epoch (sess st) of
           Inl e \<Rightarrow> Inl e
         | Inr (s', avg_cost) \<Rightarrow>
             train_loop epochs run_epoch
               \<lparr>epoch = epoch st + 1, temp_train_loss = avg_cost, sess = s',
                reported = reported st @ [avg_cost]\<rparr>)
      else Inr st)"
  by pat_completeness auto
termination
  by (relation "measure (\<lambda>(epochs, run_epoch, st). nat (epochs - epoch st))") auto

declare train_loop.simps [simp del]

definition training :: "int \<Rightarrow> ('s \<Rightarrow> error + 's \<times> f32) \<Rightarrow> 's \<Rightarrow> error + 's loop_state" where
  "training epochs run_epoch s0 =
     train_loop epochs run_epoch
       \<lparr>epoch = 0, temp_train_loss = Finite 1, sess = s0, reported = []\<rparr>"

text \<open>
  The training loss that the stopping test reads after \<open>k\<close> epochs: the initial value
  1.0 before the first epoch, and then the loss the \<open>k\<close>-th epoch reported.
\<close>

definition last_loss :: "f32 list \<Rightarrow> nat \<Rightarrow> f32" where
  "last_loss losses k = (if k = 0 then Finite 1 else losses ! (k - 1))"

text \<open>
  The session state after \<open>k\<close> epochs that ran without an exception, starting from the
  state \<open>s\<close>.
\<close>

fun session_after :: "('s \<Rightarrow> error + 's \<times> f32) \<Rightarrow> 's \<Rightarrow> nat \<Rightarrow> 's option" where
  "session_after run_epoch s 0 = Some s"
| "session_after run_epoch s (Suc k) =
     (case session_after run_epoch s k of
        None \<Rightarrow> None
      | Some s1 \<Rightarrow> (case run_epoch s1 of Inl e \<Rightarrow> None | Inr (s2, avg_cost) \<Rightarrow> Some s2))"

text \<open>
  A session whose state counts the epochs and whose losses are 1/2, 1/2048, 1/4,
  1/4, ... (float32 numbers).
\<close>

definition example_run_epoch :: "nat \<Rightarrow> error + nat \<times> f32" where
  "example_run_epoch s =
     Inr (Suc s, Finite (if s = 0 then 1 / 2 else if s = 1 then 1 / 2048 else 1 / 4))"

text \<open>
  A session whose every loss is the float32 number \<open>8589935 / 2 ^ 33\<close>, the float32
  nearest to 0.001 and slightly above it.
\<close>

definition threshold_run_epoch :: "nat \<Rightarrow> error + nat \<times> f32" where
  "threshold_run_epoch s = Inr (Suc s, Finite (8589935 / 2 ^ 33))"

section \<open>Scoring: \<open>get_roc_score\<close>\<close>

text \<open>
  The first part of \<open>get_roc_score\<close>, up to \<open>preds_all\<close> and \<open>labels_all\<close>.
  \<open>emb\<close> is the embedding matrix that the session returns and \<open>adj_orig\<close> the global
  adjacency matrix. Reading \<open>adj_rec[e[0], e[1]]\<close> or \<open>adj_orig[e[0], e[1]]\<close> outside
  the shape raises IndexError.
\<close>

definition score_edges :: "matrix \<Rightarrow> matrix \<Rightarrow> edge list \<Rightarrow> error + real list" where
  "score_edges adj_rec adj_orig es =
     (if list_all (\<lambda>(i, j). i < nrows adj_rec \<and> j < ncols adj_rec
                            \<and> i < nrows adj_orig \<and> j < ncols adj_orig) es
      then Inr (map (\<lambda>(i, j). sigmoid (ent adj_rec i j)) es)
      else Inl IndexError)"

definition score_vectors ::
  "matrix \<Rightarrow> matrix \<Rightarrow> edge list \<Rightarrow> edge list \<Rightarrow> error + real list \<times> real list" where
  "score_vectors emb adj_orig edges_pos edges_neg =
     (let adj_rec = gram emb in
      case score_edges adj_rec adj_orig edges_pos of
        Inl e \<Rightarrow> Inl e
      | Inr preds \<Rightarrow>
          (case score_edges adj_rec adj_orig edges_neg of
             Inl e \<Rightarrow> Inl e
           | Inr preds_neg \<Rightarrow>
               (let preds_all = preds @ preds_neg;
                    labels_all = replicate (length preds) 1 @ replicate (length preds) 0
                in Inr (preds_all, labels_all))))"

text \<open>
  \<open>roc_auc_score\<close> and \<open>average_precision_score\<close> are scikit-learn's. Both check first
  that \<open>y_true\<close> and \<open>y_score\<close> have the same number of samples and raise ValueError
  otherwise; what they compute on consistent input is a parameter \<open>metric\<close>, which may
  itself raise.
\<close>

definition sk_metric ::
  "(real list \<Rightarrow> real list \<Rightarrow> error + real) \<Rightarrow> real list \<Rightarrow> real list \<Rightarrow> error + real" where
  "sk_metric metric y_true y_score =
     (if length y_true \<noteq> length y_score then Inl ValueError else metric y_true y_score)"

definition get_roc_score ::
  "(real list \<Rightarrow> real list \<Rightarrow> error + real) \<Rightarrow> (real list \<Rightarrow> real list \<Rightarrow> error + real)
     \<Rightarrow> matrix \<Rightarrow> matrix \<Rightarrow> edge list \<Rightarrow> edge list
     \<Rightarrow> error + real \<times> real \<times> real list \<times> real list" where
  "get_roc_score roc_auc avg_precision emb adj_orig edges_pos edges_neg =
     (case score_vectors emb adj_orig edges_pos edges_neg of
        Inl e \<Rightarrow> Inl e
      | Inr (preds_all, labels_all) \<Rightarrow>
          (case sk_metric roc_auc labels_all preds_all of
             Inl e \<Rightarrow> Inl e
           | Inr roc_score \<Rightarrow>
               (case sk_metric avg_precision labels_all preds_all of
                  Inl e \<Rightarrow> Inl e
                | Inr ap_score \<Rightarrow> Inr (roc_score, ap_score, labels_all, preds_all))))"

text \<open>A graph with three nodes: the edge between 0 and 1, and the isolated node 2.\<close>

definition small_graph :: matrix where
  "small_graph =
     \<lparr>nrows = 3, ncols = 3,
      ent = (\<lambda>i j. if (i = 0 \<and> j = 1) \<or> (i = 1 \<and> j = 0) then 1 else 0)\<rparr>"

text \<open>An embedding matrix for three nodes with one coordinate each: 1, 2 and 2.\<close>

definition small_embedding :: matrix where
  "small_embedding = \<lparr>nrows = 3, ncols = 1, ent = (\<lambda>i j. if i = 0 then 1 else 2)\<rparr>"

section \<open>Properties of the floating-point rounding\<close>

text \<open>
  Rounding is monotone and symmetric, it returns a number of the format, and it leaves
  the numbers of the format as they are.
\<close>

lemma round_half_even_bounds:
  "\<lfloor>x\<rfloor> \<le> round_half_even x" "round_half_even x \<le> \<lfloor>x\<rfloor> + 1"
  by (simp_all add: round_half_even_def)

lemma round_half_even_of_int [simp]: "round_half_even (of_int n) = n"
  by (simp add: round_half_even_def)

lemma round_half_even_power2 [simp]: "round_half_even (2 ^ n) = 2 ^ n"
  using round_half_even_of_int [of "2 ^ n"] by simp

lemma round_half_even_mono:
  assumes "a \<le> b"
  shows "round_half_even a \<le> round_half_even b"
proof (cases "\<lfloor>a\<rfloor> < \<lfloor>b\<rfloor>")
  case True
  have "round_half_even a \<le> \<lfloor>a\<rfloor> + 1" by (rule round_half_even_bounds)
  also have "\<dots> \<le> \<lfloor>b\<rfloor>" using True by simp
  also have "\<dots> \<le> round_half_even b" by (rule round_half_even_bounds)
  finally show ?thesis .
next
  case False
  moreover have "\<lfloor>a\<rfloor> \<le> \<lfloor>b\<rfloor>" using assms by (rule floor_mono)
  ultimately have eq: "\<lfloor>a\<rfloor> = \<lfloor>b\<rfloor>" by simp
  then have "a - of_int \<lfloor>a\<rfloor> \<le> b - of_int \<lfloor>b\<rfloor>" using assms by simp
  then show ?thesis
    unfolding round_half_even_def eq by (auto split: if_splits)
qed

lemma round_half_even_eqI:
  assumes "of_int n - 1 / 2 < x" and "x < of_int n + 1 / 2"
  shows "round_half_even x = n"
proof (cases "of_int n \<le> x")
  case True
  then have "\<lfloor>x\<rfloor> = n" using assms(2) by (intro floor_unique) simp_all
  then show ?thesis using assms(2) by (simp add: round_half_even_def)
next
  case False
  then have f: "\<lfloor>x\<rfloor> = n - 1" using assms(1) by (intro floor_unique) simp_all
  then show ?thesis using assms(1) by (simp add: round_half_even_def)
qed

lemma float_round_0 [simp]: "float_round p emin 0 = 0"
  by (simp add: float_round_def)

lemma float_round_minus: "float_round p emin (- x) = - float_round p emin x"
  by (simp add: float_round_def float_ulp_def float_exponent_def sgn_minus)

lemma float_ulp_pos: "0 < float_ulp p emin x"
  by (simp add: float_ulp_def)

lemma float_round_nonneg:
  assumes "0 \<le> x"
  shows "0 \<le> float_round p emin x"
proof (cases "x = 0")
  case True
  then show ?thesis by simp
next
  case False
  with assms have "0 < x" by simp
  have "0 \<le> \<bar>x\<bar> / float_ulp p emin x"
    using float_ulp_pos [of p emin x] by simp
  then have "round_half_even 0 \<le> round_half_even (\<bar>x\<bar> / float_ulp p emin x)"
    by (rule round_half_even_mono)
  then have "0 \<le> round_half_even (\<bar>x\<bar> / float_ulp p emin x)"
    using round_half_even_of_int [of 0] by simp
  then show ?thesis
    using \<open>0 < x\<close> float_ulp_pos [of p emin x] by (simp add: float_round_def)
qed

lemma float_exponent_upper:
  assumes "x \<noteq> 0"
  shows "\<bar>x\<bar> < 2 powr of_int (float_exponent emin x + 1)"
proof -
  have "\<bar>x\<bar> < 2 powr (of_int \<lfloor>log 2 \<bar>x\<bar>\<rfloor> + 1)"
    using floor_log_eq_powr_iff [of "\<bar>x\<bar>" 2 "\<lfloor>log 2 \<bar>x\<bar>\<rfloor>"] assms by simp
  also have "\<dots> \<le> 2 powr of_int (float_exponent emin x + 1)"
    by (intro powr_mono) (simp_all add: float_exponent_def)
  finally show ?thesis .
qed

lemma float_exponent_lower:
  assumes "x \<noteq> 0" and "emin < float_exponent emin x"
  shows "2 powr of_int (float_exponent emin x) \<le> \<bar>x\<bar>"
proof -
  have "float_exponent emin x = \<lfloor>log 2 \<bar>x\<bar>\<rfloor>"
    using assms(2) by (simp add: float_exponent_def max_def split: if_splits)
  then show ?thesis
    using floor_log_eq_powr_iff [of "\<bar>x\<bar>" 2 "\<lfloor>log 2 \<bar>x\<bar>\<rfloor>"] assms(1) by simp
qed

lemma float_exponent_mono:
  assumes "0 < x" and "x \<le> y"
  shows "float_exponent emin x \<le> float_exponent emin y"
proof -
  have "log 2 \<bar>x\<bar> \<le> log 2 \<bar>y\<bar>" using assms by simp
  then have "\<lfloor>log 2 \<bar>x\<bar>\<rfloor> \<le> \<lfloor>log 2 \<bar>y\<bar>\<rfloor>" by (rule floor_mono)
  then show ?thesis by (simp add: float_exponent_def)
qed

lemma float_round_pos:
  "0 < x \<Longrightarrow>
   float_round p emin x = float_ulp p emin x * of_int (round_half_even (x / float_ulp p emin x))"
  by (simp add: float_round_def)

lemma two_powr_int: "0 \<le> k \<Longrightarrow> (2::real) powr of_int k = of_int (2 ^ nat k)"
  by (simp add: powr_real_of_int)

lemma float_round_upper:
  assumes "0 < x" and "0 < p"
  shows "float_round p emin x \<le> 2 powr of_int (float_exponent emin x + 1)"
proof -
  define e where "e = float_exponent emin x"
  define U where "U = float_ulp p emin x"
  have U: "U = 2 powr of_int (e - int p + 1)" and Upos: "0 < U"
    by (simp_all add: U_def e_def float_ulp_def)
  have split: "2 powr of_int (e + 1) = U * 2 powr of_int (int p)"
    unfolding U by (simp flip: powr_add)
  have "x < 2 powr of_int (e + 1)"
    using float_exponent_upper [of x emin] assms(1) by (simp add: e_def)
  then have "x < U * 2 powr of_int (int p)"
    by (simp only: split)
  then have "x / U < 2 powr of_int (int p)"
    using Upos by (simp add: divide_less_eq mult.commute)
  then have "x / U \<le> 2 ^ p"
    by (simp add: powr_realpow)
  then have "round_half_even (x / U) \<le> round_half_even (2 ^ p)"
    by (rule round_half_even_mono)
  then have "round_half_even (x / U) \<le> 2 ^ p" by simp
  then have "(of_int (round_half_even (x / U)) :: real) \<le> of_int (2 ^ p)"
    by (simp only: of_int_le_iff)
  then have "of_int (round_half_even (x / U)) \<le> (2::real) powr of_int (int p)"
    by (simp add: powr_realpow)
  then have "U * of_int (round_half_even (x / U)) \<le> U * 2 powr of_int (int p)"
    using Upos by simp
  then have "U * of_int (round_half_even (x / U)) \<le> 2 powr of_int (e + 1)"
    by (simp only: split)
  moreover have "float_round p emin x = U * of_int (round_half_even (x / U))"
    using assms(1) by (simp add: float_round_pos U_def)
  ultimately show ?thesis
    by (simp only: e_def)
qed

lemma float_round_lower:
  assumes "0 < x" and "0 < p" and "emin < float_exponent emin x"
  shows "2 powr of_int (float_exponent emin x) \<le> float_round p emin x"
proof -
  define e where "e = float_exponent emin x"
  define U where "U = float_ulp p emin x"
  have U: "U = 2 powr of_int (e - int p + 1)" and Upos: "0 < U"
    by (simp_all add: U_def e_def float_ulp_def)
  have split: "2 powr of_int e = U * 2 powr of_int (int p - 1)"
    unfolding U by (simp flip: powr_add)
  have "2 powr of_int e \<le> x"
    using float_exponent_lower [of x emin] assms by (simp add: e_def)
  then have "U * 2 powr of_int (int p - 1) \<le> x"
    by (simp only: split)
  then have "2 powr of_int (int p - 1) \<le> x / U"
    using Upos by (simp add: le_divide_eq mult.commute)
  moreover have pw: "(2::real) powr of_int (int p - 1) = 2 ^ (p - 1)"
    using assms(2) powr_realpow [of 2 "p - 1"] by (simp add: of_nat_diff)
  ultimately have "2 ^ (p - 1) \<le> x / U" by simp
  then have "round_half_even (2 ^ (p - 1)) \<le> round_half_even (x / U)"
    by (rule round_half_even_mono)
  then have "2 ^ (p - 1) \<le> round_half_even (x / U)" by simp
  then have "(of_int (2 ^ (p - 1)) :: real) \<le> of_int (round_half_even (x / U))"
    by (simp only: of_int_le_iff)
  then have "(2::real) powr of_int (int p - 1) \<le> of_int (round_half_even (x / U))"
    by (simp only: pw) simp
  then have "U * 2 powr of_int (int p - 1) \<le> U * of_int (round_half_even (x / U))"
    using Upos by simp
  then have "2 powr of_int e \<le> U * of_int (round_half_even (x / U))"
    by (simp only: split)
  moreover have "float_round p emin x = U * of_int (round_half_even (x / U))"
    using assms(1) by (simp add: float_round_pos U_def)
  ultimately show ?thesis
    by (simp only: e_def)
qed

lemma float_round_mono_pos:
  assumes "0 < x" and "x \<le> y" and "0 < p"
  shows "float_round p emin x \<le> float_round p emin y"
proof (cases "float_exponent emin x = float_exponent emin y")
  case True
  then have U: "float_ulp p emin x = float_ulp p emin y"
    by (simp add: float_ulp_def)
  have "x / float_ulp p emin y \<le> y / float_ulp p emin y"
    using assms(2) float_ulp_pos [of p emin y] by (simp add: divide_right_mono)
  then have "round_half_even (x / float_ulp p emin y) \<le> round_half_even (y / float_ulp p emin y)"
    by (rule round_half_even_mono)
  then show ?thesis
    using assms float_ulp_pos [of p emin y] by (simp add: float_round_pos U)
next
  case False
  with float_exponent_mono [OF assms(1,2), of emin]
  have lt: "float_exponent emin x < float_exponent emin y" by simp
  have "emin \<le> float_exponent emin x" by (simp add: float_exponent_def)
  with lt have big: "emin < float_exponent emin y" by simp
  have y: "0 < y" using assms by simp
  have "float_round p emin x \<le> 2 powr of_int (float_exponent emin x + 1)"
    using assms(1,3) by (rule float_round_upper)
  also have "\<dots> \<le> 2 powr of_int (float_exponent emin y)"
    using lt by (intro powr_mono) simp_all
  also have "\<dots> \<le> float_round p emin y"
    using y assms(3) big by (rule float_round_lower)
  finally show ?thesis .
qed

lemma float_round_mono:
  assumes "x \<le> y" and "0 < p"
  shows "float_round p emin x \<le> float_round p emin y"
proof -
  consider "0 < x" | "x \<le> 0" "0 \<le> y" | "y < 0" by linarith
  then show ?thesis
  proof cases
    case 1
    then show ?thesis using assms by (intro float_round_mono_pos)
  next
    case 2
    have "float_round p emin x \<le> 0"
      using float_round_nonneg [of "- x" p emin] 2(1) by (simp add: float_round_minus)
    also have "0 \<le> float_round p emin y"
      using 2(2) by (rule float_round_nonneg)
    finally show ?thesis .
  next
    case 3
    then have "0 < - y" and "- y \<le> - x" using assms(1) by simp_all
    then have "float_round p emin (- y) \<le> float_round p emin (- x)"
      using assms(2) by (intro float_round_mono_pos)
    then show ?thesis by (simp add: float_round_minus)
  qed
qed

lemma on_grid_minus: "on_grid p emin y \<Longrightarrow> on_grid p emin (- y)"
proof -
  assume "on_grid p emin y"
  then obtain m k where "y = of_int m * 2 powr of_int k" "\<bar>m\<bar> < 2 ^ p" "emin - int p + 1 \<le> k"
    unfolding on_grid_def by blast
  then have "- y = of_int (- m) * 2 powr of_int k \<and> \<bar>- m\<bar> < 2 ^ p \<and> emin - int p + 1 \<le> k"
    by simp
  then show ?thesis unfolding on_grid_def by blast
qed

lemma on_grid_double: "on_grid p emin y \<Longrightarrow> on_grid p emin (2 * y)"
proof -
  assume "on_grid p emin y"
  then obtain m k where "y = of_int m * 2 powr of_int k" "\<bar>m\<bar> < 2 ^ p" "emin - int p + 1 \<le> k"
    unfolding on_grid_def by blast
  then have "2 * y = of_int m * 2 powr of_int (k + 1) \<and> \<bar>m\<bar> < 2 ^ p \<and> emin - int p + 1 \<le> k + 1"
    by (simp add: powr_add)
  then show ?thesis unfolding on_grid_def by blast
qed

lemma float_round_grid_pos:
  assumes y: "y = of_int m * 2 powr of_int k" and m: "0 < m" "m < 2 ^ p"
    and k: "emin - int p + 1 \<le> k"
  shows "float_round p emin y = y"
proof -
  define e where "e = float_exponent emin y"
  define j where "j = e - int p + 1"
  have ypos: "0 < y" using y m(1) by simp
  have "y < of_int (2 ^ p) * 2 powr of_int k"
    unfolding y using m(2) by (simp only: mult_less_cancel_right of_int_less_iff) simp
  also have "\<dots> = 2 powr of_int (int p + k)"
    by (simp add: powr_add powr_realpow)
  finally have ub: "y < 2 powr of_int (int p + k)" .
  have "2 powr of_int \<lfloor>log 2 y\<rfloor> \<le> y"
    using floor_log_eq_powr_iff [of y 2 "\<lfloor>log 2 y\<rfloor>"] ypos by simp
  then have "2 powr of_int \<lfloor>log 2 y\<rfloor> < (2::real) powr of_int (int p + k)"
    using ub by (rule le_less_trans)
  then have "(of_int \<lfloor>log 2 y\<rfloor> :: real) < of_int (int p + k)"
    by (subst (asm) powr_less_cancel_iff) simp_all
  then have "\<lfloor>log 2 y\<rfloor> < int p + k"
    by (simp only: of_int_less_iff)
  then have "e \<le> int p + k - 1"
    using k ypos by (simp add: e_def float_exponent_def)
  then have jk: "j \<le> k" by (simp add: j_def)
  have U: "float_ulp p emin y = 2 powr of_int j"
    by (simp add: float_ulp_def e_def j_def)
  have "(2::real) powr of_int k = 2 powr of_int j * 2 powr of_int (k - j)"
    by (simp flip: powr_add)
  also have "(2::real) powr of_int (k - j) = of_int (2 ^ nat (k - j))"
    using jk by (intro two_powr_int) simp
  finally have "(2::real) powr of_int k = 2 powr of_int j * of_int (2 ^ nat (k - j))" .
  then have yU: "y = 2 powr of_int j * of_int (m * 2 ^ nat (k - j))"
    unfolding y by simp
  then have "y / 2 powr of_int j = of_int (m * 2 ^ nat (k - j))"
    by simp
  then have "round_half_even (y / 2 powr of_int j) = m * 2 ^ nat (k - j)"
    by (simp only: round_half_even_of_int)
  then have "float_round p emin y = 2 powr of_int j * of_int (m * 2 ^ nat (k - j))"
    using ypos by (simp only: float_round_pos U)
  with yU show ?thesis by simp
qed

lemma float_round_on_grid:
  assumes "on_grid p emin y"
  shows "float_round p emin y = y"
proof -
  from assms obtain m k where
    y: "y = of_int m * 2 powr of_int k" and m: "\<bar>m\<bar> < 2 ^ p" and k: "emin - int p + 1 \<le> k"
    unfolding on_grid_def by blast
  consider "m = 0" | "0 < m" | "m < 0" by linarith
  then show ?thesis
  proof cases
    case 1
    then show ?thesis by (simp add: y)
  next
    case 2
    then show ?thesis using y m k by (intro float_round_grid_pos [of y m k]) simp_all
  next
    case 3
    have "float_round p emin (- y) = - y"
      using 3 y m k by (intro float_round_grid_pos [of "- y" "- m" k]) simp_all
    then show ?thesis by (simp add: float_round_minus)
  qed
qed

lemma float_mantissa_le:
  assumes "0 < x"
  shows "round_half_even (x / float_ulp p emin x) \<le> 2 ^ p"
proof -
  define e where "e = float_exponent emin x"
  define U where "U = float_ulp p emin x"
  have U: "U = 2 powr of_int (e - int p + 1)" and Upos: "0 < U"
    by (simp_all add: U_def e_def float_ulp_def)
  have split: "2 powr of_int (e + 1) = U * 2 powr of_int (int p)"
    unfolding U by (simp flip: powr_add)
  have "x < 2 powr of_int (e + 1)"
    using float_exponent_upper [of x emin] assms(1) by (simp add: e_def)
  then have "x < U * 2 powr of_int (int p)"
    by (simp only: split)
  then have "x / U < 2 powr of_int (int p)"
    using Upos by (simp add: divide_less_eq mult.commute)
  then have "x / U \<le> 2 ^ p"
    by (simp add: powr_realpow)
  then have "round_half_even (x / U) \<le> round_half_even (2 ^ p)"
    by (rule round_half_even_mono)
  then show ?thesis by (simp add: U_def)
qed

lemma on_grid_float_round:
  assumes "0 < p"
  shows "on_grid p emin (float_round p emin x)"
proof -
  have pos: "on_grid p emin (float_round p emin x)" if "0 < x" for x
  proof -
    define e where "e = float_exponent emin x"
    define M where "M = round_half_even (x / float_ulp p emin x)"
    have fr: "float_round p emin x = of_int M * 2 powr of_int (e - int p + 1)"
      using that by (simp add: float_round_pos M_def float_ulp_def e_def)
    have e: "emin \<le> e" by (simp add: e_def float_exponent_def)
    have M0: "0 \<le> M"
    proof -
      have "0 \<le> x / float_ulp p emin x"
        using that float_ulp_pos [of p emin x] by simp
      then have "round_half_even 0 \<le> M"
        unfolding M_def by (rule round_half_even_mono)
      then show ?thesis using round_half_even_of_int [of 0] by simp
    qed
    have Mp: "M \<le> 2 ^ p"
      unfolding M_def using that by (rule float_mantissa_le)
    show ?thesis
    proof (cases "M < 2 ^ p")
      case True
      then have "\<bar>M\<bar> < 2 ^ p \<and> emin - int p + 1 \<le> e - int p + 1"
        using M0 e by simp
      with fr show ?thesis unfolding on_grid_def by blast
    next
      case False
      with Mp have M: "M = 2 ^ p" by simp
      have "(2::int) ^ p = 2 ^ (p - 1) * 2"
        using assms by (cases p) simp_all
      then have "(of_int M :: real) = of_int (2 ^ (p - 1)) * 2"
        using M by simp
      then have "float_round p emin x = of_int (2 ^ (p - 1)) * 2 powr of_int (e - int p + 1 + 1)"
        unfolding fr by (simp add: powr_add)
      moreover have "\<bar>(2::int) ^ (p - 1)\<bar> < 2 ^ p"
        using assms by simp
      moreover have "emin - int p + 1 \<le> e - int p + 1 + 1"
        using e by simp
      ultimately show ?thesis unfolding on_grid_def by blast
    qed
  qed
  consider "x = 0" | "0 < x" | "x < 0" by linarith
  then show ?thesis
  proof cases
    case 1
    have "(0::real) = of_int 0 * 2 powr of_int (emin - int p + 1)" by simp
    then have "on_grid p emin 0"
      unfolding on_grid_def by (metis abs_zero order_refl zero_less_numeral zero_less_power)
    with 1 show ?thesis by simp
  next
    case 2
    then show ?thesis by (rule pos)
  next
    case 3
    then have "on_grid p emin (float_round p emin (- x))" by (intro pos) simp
    then have "on_grid p emin (- float_round p emin (- x))" by (rule on_grid_minus)
    then show ?thesis by (simp add: float_round_minus)
  qed
qed

lemma float_round_eqI:
  assumes x: "0 < x"
    and e: "emin \<le> e" "2 powr of_int e \<le> x" "x < 2 powr of_int (e + 1)"
    and n: "of_int n - 1 / 2 < x / 2 powr of_int (e - int p + 1)"
           "x / 2 powr of_int (e - int p + 1) < of_int n + 1 / 2"
  shows "float_round p emin x = of_int n * 2 powr of_int (e - int p + 1)"
proof -
  have "\<lfloor>log 2 x\<rfloor> = e"
    using floor_log_eq_powr_iff [of x 2 e] x e(2,3) by simp
  then have "float_exponent emin x = e"
    using x e(1) by (simp add: float_exponent_def)
  then have U: "float_ulp p emin x = 2 powr of_int (e - int p + 1)"
    by (simp add: float_ulp_def)
  have "round_half_even (x / 2 powr of_int (e - int p + 1)) = n"
    using n by (rule round_half_even_eqI)
  then show ?thesis
    using x by (simp only: float_round_pos U) simp
qed

subsection \<open>Some rounded numbers\<close>

text \<open>
  The literal \<open>0.001\<close> as a float64 and as a float32, and the numbers that
  \<open>np.sqrt(6.0 / 7000)\<close> goes through.
\<close>

lemma float64_0001: "float64_round (1 / 1000) = 4611686018427388 / 2 ^ 62"
proof -
  have p1: "(2::real) powr of_int (- 10) = 1 / 2 ^ 10"
    and p2: "(2::real) powr of_int (- 10 + 1) = 1 / 2 ^ 9"
    and p3: "(2::real) powr of_int (- 10 - int 53 + 1) = 1 / 2 ^ 62"
    by (simp_all add: powr_minus_divide)
  have "float_round 53 (- 1022) (1 / 1000) =
        of_int 4611686018427388 * 2 powr of_int (- 10 - int 53 + 1)"
    by (rule float_round_eqI) (simp_all only: p1 p2 p3, simp_all)
  then show ?thesis
    unfolding float64_round_def p3 by simp
qed

lemma float32_0001: "float32_round (4611686018427388 / 2 ^ 62) = 8589935 / 2 ^ 33"
proof -
  have p1: "(2::real) powr of_int (- 10) = 1 / 2 ^ 10"
    and p2: "(2::real) powr of_int (- 10 + 1) = 1 / 2 ^ 9"
    and p3: "(2::real) powr of_int (- 10 - int 24 + 1) = 1 / 2 ^ 33"
    by (simp_all add: powr_minus_divide)
  have "float_round 24 (- 126) (4611686018427388 / 2 ^ 62) =
        of_int 8589935 * 2 powr of_int (- 10 - int 24 + 1)"
    by (rule float_round_eqI) (simp_all only: p1 p2 p3, simp_all)
  then show ?thesis
    unfolding float32_round_def p3 by simp
qed

lemma float64_7000: "float64_round 7000 = 7000"
proof -
  have "on_grid 53 (- 1022) (of_int 7000 * 2 powr of_int 0)"
    unfolding on_grid_def by (rule exI [of _ 7000], rule exI [of _ 0]) simp
  then have "on_grid 53 (- 1022) 7000" by simp
  then show ?thesis
    unfolding float64_round_def by (rule float_round_on_grid)
qed

lemma float64_6_7000: "float64_round (6 / 7000) = 7905747460161236 / 2 ^ 63"
proof -
  have p1: "(2::real) powr of_int (- 11) = 1 / 2 ^ 11"
    and p2: "(2::real) powr of_int (- 11 + 1) = 1 / 2 ^ 10"
    and p3: "(2::real) powr of_int (- 11 - int 53 + 1) = 1 / 2 ^ 63"
    by (simp_all add: powr_minus_divide)
  have "float_round 53 (- 1022) (6 / 7000) =
        of_int 7905747460161236 * 2 powr of_int (- 11 - int 53 + 1)"
    by (rule float_round_eqI) (simp_all only: p1 p2 p3, simp_all)
  then show ?thesis
    unfolding float64_round_def p3 by simp
qed

lemma float64_sqrt_6_7000:
  "float64_round (sqrt (7905747460161236 / 2 ^ 63)) = 8438521353373159 / 2 ^ 58"
proof -
  define q :: real where "q = 7905747460161236 / 2 ^ 63"
  have p1: "(2::real) powr of_int (- 6) = 1 / 2 ^ 6"
    and p2: "(2::real) powr of_int (- 6 + 1) = 1 / 2 ^ 5"
    and p3: "(2::real) powr of_int (- 6 - int 53 + 1) = 1 / 2 ^ 58"
    by (simp_all add: powr_minus_divide)
  have pos: "0 < sqrt q" by (simp add: q_def)
  have lo: "1 / 2 ^ 6 \<le> sqrt q"
    by (rule real_le_rsqrt) (simp add: q_def power2_eq_square)
  have hi: "sqrt q < 1 / 2 ^ 5"
    by (rule real_less_lsqrt) (simp_all add: q_def power2_eq_square)
  have n1: "(of_int 8438521353373159 - 1 / 2) / 2 ^ 58 < sqrt q"
    by (rule real_less_rsqrt) (simp add: q_def power2_eq_square)
  have n2: "sqrt q < (of_int 8438521353373159 + 1 / 2) / 2 ^ 58"
    by (rule real_less_lsqrt) (simp_all add: q_def power2_eq_square)
  have "float_round 53 (- 1022) (sqrt q) =
        of_int 8438521353373159 * 2 powr of_int (- 6 - int 53 + 1)"
  proof (rule float_round_eqI)
    show "0 < sqrt q" by (rule pos)
    show "- 1022 \<le> (- 6 :: int)" by simp
    show "2 powr of_int (- 6) \<le> sqrt q" using lo by (simp only: p1)
    show "sqrt q < 2 powr of_int (- 6 + 1)" using hi by (simp only: p2)
    show "of_int 8438521353373159 - 1 / 2 < sqrt q / 2 powr of_int (- 6 - int 53 + 1)"
      using n1 unfolding p3 by (simp add: field_simps)
    show "sqrt q / 2 powr of_int (- 6 - int 53 + 1) < of_int 8438521353373159 + 1 / 2"
      using n2 unfolding p3 by (simp add: field_simps)
  qed
  then show ?thesis
    unfolding float64_round_def p3 q_def by simp
qed

lemma float32_sqrt_6_7000:
  "float32_round (8438521353373159 / 2 ^ 58) = 15717971 / 2 ^ 29"
proof -
  have p1: "(2::real) powr of_int (- 6) = 1 / 2 ^ 6"
    and p2: "(2::real) powr of_int (- 6 + 1) = 1 / 2 ^ 5"
    and p3: "(2::real) powr of_int (- 6 - int 24 + 1) = 1 / 2 ^ 29"
    by (simp_all add: powr_minus_divide)
  have "float_round 24 (- 126) (8438521353373159 / 2 ^ 58) =
        of_int 15717971 * 2 powr of_int (- 6 - int 24 + 1)"
    by (rule float_round_eqI) (simp_all only: p1 p2 p3, simp_all)
  then show ?thesis
    unfolding float32_round_def p3 by simp
qed

lemma above_exact: "sqrt (6 / 7000) < 15717971 / 2 ^ 29"
  by (rule real_less_lsqrt) (simp_all add: power2_eq_square)

section \<open>Properties of the edge split\<close>

lemma ismember_iff: "ismember a b \<longleftrightarrow> a \<in> set b"
  by (auto simp: ismember_def list_ex_iff)


lemma set_coords:
  "set (coords m) = {(i, j). i < nrows m \<and> j < ncols m \<and> ent m i j \<noteq> 0}"
  by (auto simp: coords_def)

lemma coords_product:
  "coords m = filter (\<lambda>(i, j). ent m i j \<noteq> 0) (List.product [0..<nrows m] [0..<ncols m])"
proof -
  have "concat (map (\<lambda>i. concat (map (\<lambda>j. if P i j then [(i, j)] else []) ys)) xs) =
        filter (\<lambda>(i, j). P i j) (List.product xs ys)"
    for P :: "nat \<Rightarrow> nat \<Rightarrow> bool" and xs ys
  proof (induction xs)
    case Nil
    show ?case by simp
  next
    case (Cons x xs)
    have "concat (map (\<lambda>j. if P x j then [(x, j)] else []) ys) =
          filter (\<lambda>(i, j). P i j) (map (Pair x) ys)"
      by (induction ys) simp_all
    with Cons show ?case by simp
  qed
  then show ?thesis by (simp add: coords_def)
qed

lemma distinct_coords: "distinct (coords m)"
  by (simp add: coords_product distinct_product)

lemma test_accept_length:
  "length (test_accept ea c p) \<le> Suc (length c)"
  by (cases p) (simp add: test_accept_def)

lemma val_accept_length:
  "length (val_accept tr va c p) \<le> Suc (length c)"
  by (cases p) (simp add: val_accept_def)

lemma foldl_accept_length:
  assumes step: "\<And>c p. length (accept c p) \<le> Suc (length c)"
  shows "length (foldl accept c ps) \<le> length c + length ps"
proof (induction ps arbitrary: c)
  case Nil
  show ?case by simp
next
  case (Cons p ps)
  have "length (foldl accept (accept c p) ps) \<le> length (accept c p) + length ps"
    by (rule Cons.IH)
  also have "\<dots> \<le> Suc (length c) + length ps"
    using step [of c p] by simp
  finally show ?case by simp
qed

lemma rejection_loop_length:
  "(\<forall>c p. length (accept c p) \<le> Suc (length c)) \<Longrightarrow>
   length chosen \<le> target \<Longrightarrow>
   rejection_loop accept n target draws chosen = Some (Inr (res, rest)) \<Longrightarrow>
   length res = target"
proof (induction accept n target draws chosen rule: rejection_loop.induct)
  case (1 accept n target draws chosen)
  note step = "1.prems"(1)
  show ?case
  proof (cases "length chosen < target")
    case False
    with "1.prems" show ?thesis
      by (simp add: rejection_loop.simps [of accept n target draws chosen])
  next
    case True
    define n_rnd where "n_rnd = target - length chosen"
    define chosen' where
      "chosen' = foldl accept chosen (zip (take n_rnd (take (2 * n_rnd) draws))
                                          (drop n_rnd (take (2 * n_rnd) draws)))"
    from True "1.prems"(3) have n: "n \<noteq> 0" and enough: "\<not> length draws < 2 * n_rnd"
      by (auto simp: n_rnd_def rejection_loop.simps [of accept n target draws chosen] split: if_splits)
    have "length chosen' \<le> length chosen + length (zip (take n_rnd (take (2 * n_rnd) draws))
                                          (drop n_rnd (take (2 * n_rnd) draws)))"
      unfolding chosen'_def using step by (intro foldl_accept_length) blast
    then have le: "length chosen' \<le> target"
      using True by (simp add: n_rnd_def)
    have run: "rejection_loop accept n target (drop (2 * n_rnd) draws) chosen' = Some (Inr (res, rest))"
      using "1.prems"(3) True n enough
      by (simp add: n_rnd_def chosen'_def Let_def rejection_loop.simps [of accept n target draws chosen])
    show ?thesis
      using "1.IH" [OF True n, of n_rnd] enough le run step
      by (simp add: n_rnd_def chosen'_def Let_def)
  qed
qed

lemma np_delete_length:
  assumes "np_delete legacy arr obj = Inr res" and "distinct obj" and "set obj \<subseteq> {0..<length arr}"
  shows "length res = length arr - length obj"
proof -
  have res: "res = map (\<lambda>k. arr ! k) (filter (\<lambda>k. k \<notin> set obj) [0..<length arr])"
    using assms(1) by (auto simp: np_delete_def split: if_splits)
  have "length (filter (\<lambda>k. k \<notin> set obj) [0..<length arr]) = card ({0..<length arr} - set obj)"
    by (simp add: distinct_length_filter Diff_eq Int_commute Collect_neg_eq)
  also have "\<dots> = length arr - card (set obj)"
    using assms(3) by (simp add: card_Diff_subset)
  also have "card (set obj) = length obj"
    using assms(2) by (simp add: distinct_card)
  finally show ?thesis by (simp add: res)
qed


lemma is_shuffle_length: "is_shuffle perm n \<Longrightarrow> length perm = n"
  by (metis is_shuffle_def distinct_card card_atLeastLessThan diff_zero)

lemma split_indices:
  assumes "is_shuffle perm n" and "2 * k \<le> n"
  shows "distinct (take k (drop k perm) @ take k perm)"
    and "set (take k (drop k perm) @ take k perm) \<subseteq> {0..<n}"
    and "length (take k (drop k perm) @ take k perm) = 2 * k"
proof -
  have len: "length perm = n" using assms(1) by (rule is_shuffle_length)
  have d: "distinct perm" and s: "set perm = {0..<n}"
    using assms(1) by (simp_all add: is_shuffle_def)
  have "distinct (take k perm @ take k (drop k perm))"
    using d by (metis append_take_drop_id distinct_take take_add)
  then show "distinct (take k (drop k perm) @ take k perm)" by auto
  show "set (take k (drop k perm) @ take k perm) \<subseteq> {0..<n}"
    using s by (auto dest!: in_set_takeD in_set_dropD)
  show "length (take k (drop k perm) @ take k perm) = 2 * k"
    using len assms(2) by simp
qed

lemma nth_inj_on: "distinct xs \<Longrightarrow> inj_on (\<lambda>k. xs ! k) {0..<length xs}"
  by (auto simp: inj_on_def nth_eq_iff_index_eq)

text \<open>
  Claim C4. Whenever the split of a graph with \<open>E\<close> upper-triangle edges returns,
  \<open>val_edges\<close>, \<open>val_edges_false\<close>, \<open>test_edges\<close> and \<open>test_edges_false\<close> each hold
  \<open>floor(E/50)\<close> pairs and \<open>train_edges\<close> holds the remaining
  \<open>E - 2 * floor(E/50)\<close> edges: the three positive lists together hold every edge
  once, so \<open>train_edges\<close> are exactly the edges that are neither validation nor test
  edges.
\<close>

theorem split_sizes:
  assumes shuffle: "is_shuffle perm (num_edges_triu adj0)"
    and ok: "mask_test_edges legacy adj0 perm draws = Some (Inr r)"
  shows "length (val_edges r) = num_edges_triu adj0 div 50
       \<and> length (val_edges_false r) = num_edges_triu adj0 div 50
       \<and> length (test_edges r) = num_edges_triu adj0 div 50
       \<and> length (test_edges_false r) = num_edges_triu adj0 div 50
       \<and> length (train_edges r) = num_edges_triu adj0 - 2 * (num_edges_triu adj0 div 50)
       \<and> set (train_edges r) =
           set (fst (sparse_to_tuple (triu (remove_diag adj0))))
             - set (val_edges r) - set (test_edges r)
       \<and> set (val_edges r) \<union> set (test_edges r)
           \<subseteq> set (fst (sparse_to_tuple (triu (remove_diag adj0))))
       \<and> distinct (train_edges r @ val_edges r @ test_edges r)"
proof -
  define adj where "adj = remove_diag adj0"
  define edges where "edges = fst (sparse_to_tuple (triu adj))"
  define edges_all where "edges_all = fst (sparse_to_tuple adj)"
  define k where "k = length edges div 50"
  define val_idx where "val_idx = take k perm"
  define test_idx where "test_idx = take k (drop k perm)"
  define test_es where "test_es = map (\<lambda>i. edges ! i) test_idx"
  define val_es where "val_es = map (\<lambda>i. edges ! i) val_idx"
  define rest where "rest = filter (\<lambda>i. i \<notin> set (test_idx @ val_idx)) [0..<length edges]"
  have E: "num_edges_triu adj0 = length edges"
    by (simp add: num_edges_triu_def edges_def adj_def)
  have lenp: "length perm = length edges"
    using shuffle E by (simp add: is_shuffle_length)
  have k2: "2 * k \<le> length edges" by (simp add: k_def)
  have len_test: "length test_es = k" and len_val: "length val_es = k"
    using lenp k2 by (simp_all add: test_es_def val_es_def test_idx_def val_idx_def)
  from ok obtain train_es test_false d1 val_false d2 a_train where
    del: "np_delete legacy edges (test_idx @ val_idx) = Inr train_es" and
    loop1: "rejection_loop (test_accept edges_all) (nrows adj) (length test_es) draws []
              = Some (Inr (test_false, d1))" and
    loop2: "rejection_loop (val_accept train_es val_es) (nrows adj) (length val_es) d1 []
              = Some (Inr (val_false, d2))" and
    r: "r = \<lparr>adj_train = a_train, train_edges = train_es, val_edges = val_es,
             val_edges_false = val_false, test_edges = test_es,
             test_edges_false = test_false\<rparr>"
    unfolding mask_test_edges_def Let_def
      adj_def [symmetric] edges_def [symmetric] edges_all_def [symmetric]
      k_def [symmetric] val_idx_def [symmetric] test_idx_def [symmetric]
      test_es_def [symmetric] val_es_def [symmetric]
    by (auto split: sum.splits option.splits prod.splits)
  have idx: "distinct (test_idx @ val_idx)" "set (test_idx @ val_idx) \<subseteq> {0..<length edges}"
    using split_indices [OF _ k2, of perm] shuffle E by (simp_all add: test_idx_def val_idx_def)
  have "length test_false = length test_es"
    using loop1 by (intro rejection_loop_length [OF _ _ loop1]) (simp_all add: test_accept_length)
  moreover have "length val_false = length val_es"
    using loop2 by (intro rejection_loop_length [OF _ _ loop2]) (simp_all add: val_accept_length)
  moreover have "length train_es = length edges - 2 * k"
    using np_delete_length [OF del] split_indices [OF _ k2, of perm] shuffle E
    by (simp add: test_idx_def val_idx_def)
  ultimately have sizes: "length (val_edges r) = num_edges_triu adj0 div 50
       \<and> length (val_edges_false r) = num_edges_triu adj0 div 50
       \<and> length (test_edges r) = num_edges_triu adj0 div 50
       \<and> length (test_edges_false r) = num_edges_triu adj0 div 50
       \<and> length (train_edges r) = num_edges_triu adj0 - 2 * (num_edges_triu adj0 div 50)"
    using len_test len_val by (simp add: r E k_def edges_def adj_def)
  have parts: "set train_es = set edges - set val_es - set test_es
      \<and> set val_es \<union> set test_es \<subseteq> set edges
      \<and> distinct (train_es @ val_es @ test_es)"
  proof -
    have train: "train_es = map (\<lambda>i. edges ! i) rest"
      using del by (auto simp: np_delete_def rest_def split: if_splits)
    have "distinct edges"
      by (simp add: edges_def sparse_to_tuple_def distinct_coords)
    then have inj: "inj_on (\<lambda>i. edges ! i) {0..<length edges}"
      by (rule nth_inj_on)
    have d: "distinct (rest @ val_idx @ test_idx)"
      using idx(1) by (auto simp: rest_def)
    have s: "set (rest @ val_idx @ test_idx) = {0..<length edges}"
      using idx(2) by (auto simp: rest_def)
    have all: "train_es @ val_es @ test_es = map (\<lambda>i. edges ! i) (rest @ val_idx @ test_idx)"
      by (simp add: train val_es_def test_es_def)
    have dist: "distinct (train_es @ val_es @ test_es)"
      unfolding all using d inj by (simp only: distinct_map s)
    have "set (train_es @ val_es @ test_es) = (\<lambda>i. edges ! i) ` {0..<length edges}"
      unfolding all by (simp only: set_map s)
    also have "\<dots> = set edges"
      by (auto simp: set_conv_nth)
    finally have un: "set train_es \<union> set val_es \<union> set test_es = set edges"
      by (simp add: Un_assoc)
    from dist have "set train_es \<inter> (set val_es \<union> set test_es) = {}"
      by auto
    with un have "set train_es = set edges - set val_es - set test_es"
      by blast
    with un dist show ?thesis by blast
  qed
  have sel: "train_edges r = train_es" "val_edges r = val_es" "test_edges r = test_es"
    by (simp_all add: r)
  show ?thesis
    using sizes parts unfolding sel edges_def adj_def by blast
qed

lemma example_num_edges: "num_edges_triu example_graph = 56"
  by code_simp

lemma is_shuffle_upt: "is_shuffle [0..<n] n"
  by (simp add: is_shuffle_def)

lemma example_run_strict:
  "on_split edge_lists (mask_test_edges False example_graph [0..<56] [0, 11, 0, 2]) =
     Some (Inr example_lists)"
  by code_simp

lemma example_run_legacy:
  "on_split edge_lists (mask_test_edges True example_graph [0..<56] [0, 11, 0, 2]) =
     Some (Inr example_lists)"
  by code_simp

lemma example_run:
  "on_split edge_lists (mask_test_edges legacy example_graph [0..<56] [0, 11, 0, 2]) =
     Some (Inr example_lists)"
  using example_run_strict example_run_legacy by (cases legacy) simp_all

lemma on_split_Inr:
  "on_split f outcome = Some (Inr y) \<Longrightarrow> \<exists>r. outcome = Some (Inr r) \<and> f r = y"
  by (cases outcome) (auto simp: on_split_def map_sum_def split: sum.splits)

theorem split_sizes_witness:
  "is_shuffle [0..<56] (num_edges_triu example_graph) \<and>
   (\<exists>r. mask_test_edges False example_graph [0..<56] [0, 11, 0, 2] = Some (Inr r) \<and>
        edge_lists r = example_lists \<and>
        length (val_edges r) = 1 \<and> length (val_edges_false r) = 1 \<and>
        length (test_edges r) = 1 \<and> length (test_edges_false r) = 1 \<and>
        length (train_edges r) = 54 \<and>
        set (train_edges r) =
          set (fst (sparse_to_tuple (triu (remove_diag example_graph))))
            - set (val_edges r) - set (test_edges r) \<and>
        distinct (train_edges r @ val_edges r @ test_edges r))"
proof -
  have sh: "is_shuffle [0..<56] (num_edges_triu example_graph)"
    by (simp add: example_num_edges is_shuffle_upt)
  obtain r where run: "mask_test_edges False example_graph [0..<56] [0, 11, 0, 2] = Some (Inr r)"
    and lists: "edge_lists r = example_lists"
    using on_split_Inr [OF example_run [of False]] by blast
  note sizes = split_sizes [OF sh run, unfolded example_num_edges]
  have n: "(56::nat) div 50 = 1" "(56::nat) - 2 * 1 = 54"
    by simp_all
  show ?thesis
    using sh run lists sizes unfolding n by blast
qed

lemma rejection_loop_error:
  "rejection_loop accept n target draws chosen = Some (Inl e) \<Longrightarrow> e = ValueError"
proof (induction accept n target draws chosen rule: rejection_loop.induct)
  case (1 accept n target draws chosen)
  show ?case
  proof (cases "length chosen < target \<and> n \<noteq> 0 \<and> \<not> length draws < 2 * (target - length chosen)")
    case True
    then show ?thesis
      using "1.prems" "1.IH" [of "target - length chosen"]
      by (simp add: rejection_loop.simps [of accept n target draws chosen] Let_def)
  next
    case False
    then show ?thesis
      using "1.prems"
      by (auto simp: rejection_loop.simps [of accept n target draws chosen] split: if_splits)
  qed
qed

lemma rejection_loop_done:
  "\<not> length chosen < target \<Longrightarrow>
   rejection_loop accept n target draws chosen = Some (Inr (chosen, draws))"
  by (simp add: rejection_loop.simps [of accept n target draws chosen])

lemma mask_test_edges_error:
  assumes "mask_test_edges legacy adj0 perm draws = Some (Inl e)"
  shows "e = IndexError \<or> e = ValueError"
  using assms
  unfolding mask_test_edges_def Let_def
  by (auto simp: np_delete_def mat_add_def
           split: sum.splits option.splits prod.splits if_splits
           dest: rejection_loop_error)

lemma small_split_strict:
  assumes "num_edges_triu adj0 div 50 = 0"
  shows "mask_test_edges False adj0 perm draws = Some (Inl IndexError)"
  using assms by (simp add: mask_test_edges_def num_edges_triu_def np_delete_def Let_def)

lemma small_split_legacy:
  assumes small: "num_edges_triu adj0 div 50 = 0" and square: "nrows adj0 = ncols adj0"
  shows "on_split edge_lists (mask_test_edges True adj0 perm draws) =
           Some (Inr (fst (sparse_to_tuple (triu (remove_diag adj0))), [], [], [], []))"
proof -
  have all: "map (\<lambda>k. xs ! k) [0..<length xs] = xs" for xs :: "edge list"
    by (rule map_nth)
  show ?thesis
    using small square
    by (simp add: mask_test_edges_def num_edges_triu_def np_delete_def Let_def all
        rejection_loop_done mat_add_def mat_transpose_def csr_of_edges_def remove_diag_def
        on_split_def edge_lists_def)
qed

lemma empty_graph_edges: "fst (sparse_to_tuple (triu (remove_diag empty_graph))) = []"
  by code_simp

lemma empty_graph_small: "num_edges_triu empty_graph div 50 = 0"
  by (simp add: num_edges_triu_def empty_graph_edges)

text \<open>
  Claim C2, amended. \<open>mask_test_edges\<close> never raises \<open>InsufficientEdgesError\<close>. When
  \<open>floor(E/50) = 0\<close> neither sampling loop is entered; the call raises IndexError in
  \<open>np.delete\<close> (NumPy 1.19 or later), and with an older NumPy it returns, for a square
  matrix, all edges as \<open>train_edges\<close> and four empty lists.
\<close>

theorem small_graph_split:
  "mask_test_edges legacy adj0 perm draws \<noteq> Some (Inl InsufficientEdgesError) \<and>
   (num_edges_triu adj0 div 50 = 0 \<longrightarrow>
      mask_test_edges False adj0 perm draws = Some (Inl IndexError) \<and>
      (nrows adj0 = ncols adj0 \<longrightarrow>
         on_split edge_lists (mask_test_edges True adj0 perm draws) =
           Some (Inr (fst (sparse_to_tuple (triu (remove_diag adj0))), [], [], [], []))))"
  using mask_test_edges_error [of legacy adj0 perm draws InsufficientEdgesError]
    small_split_strict [of adj0 perm draws] small_split_legacy [of adj0 perm draws]
  by auto

theorem small_graph_split_witness:
  "num_edges_triu empty_graph div 50 = 0 \<and> nrows empty_graph = ncols empty_graph \<and>
   mask_test_edges False empty_graph [] [] = Some (Inl IndexError) \<and>
   on_split edge_lists (mask_test_edges True empty_graph [] []) = Some (Inr ([], [], [], [], []))"
proof -
  have square: "nrows empty_graph = ncols empty_graph" by (simp add: empty_graph_def)
  show ?thesis
    using empty_graph_small square empty_graph_edges
      small_graph_split [of False empty_graph "[]" "[]"] by simp
qed

text \<open>
  Claim C2 as stated fails on the graph without edges: the split raises IndexError or,
  with an older NumPy, returns empty lists; it does not raise
  \<open>InsufficientEdgesError\<close>.
\<close>

theorem empty_graph_no_InsufficientEdgesError:
  "mask_test_edges False empty_graph [] [] = Some (Inl IndexError) \<and>
   mask_test_edges False empty_graph [] [] \<noteq> Some (Inl InsufficientEdgesError) \<and>
   on_split edge_lists (mask_test_edges True empty_graph [] []) = Some (Inr ([], [], [], [], [])) \<and>
   mask_test_edges True empty_graph [] [] \<noteq> Some (Inl InsufficientEdgesError)"
proof -
  have square: "nrows empty_graph = ncols empty_graph" by (simp add: empty_graph_def)
  have legacy: "on_split edge_lists (mask_test_edges True empty_graph [] []) =
      Some (Inr ([], [], [], [], []))"
    using small_split_legacy [OF empty_graph_small square, of "[]" "[]"]
    by (simp add: empty_graph_edges)
  then have "mask_test_edges True empty_graph [] [] \<noteq> Some (Inl InsufficientEdgesError)"
    by (auto simp: on_split_def)
  then show ?thesis
    using small_split_strict [OF empty_graph_small, of "[]" "[]"] legacy by simp
qed

text \<open>
  Claim C1 at a failing input: in the run on the example graph, the validation negative
  \<open>(0, 2)\<close> that is generated is the test edge \<open>(0, 2)\<close>, an edge of the graph.
\<close>

theorem validation_negative_is_test_positive:
  "on_split (\<lambda>r. (test_edges r, val_edges_false r))
     (mask_test_edges False example_graph [0..<56] [0, 11, 0, 2]) =
     Some (Inr ([(0, 2)], [(0, 2)])) \<and>
   ent example_graph 0 2 = 1 \<and> is_shuffle [0..<56] (num_edges_triu example_graph)"
  by code_simp

section \<open>Properties of the normalisation\<close>


lemma list_all_upt: "list_all P [0..<n] \<longleftrightarrow> (\<forall>i<n. P i)"
  by (auto simp: list_all_iff)

lemma sum_list_upt: "sum_list (map f [0..<n]) = (\<Sum>k<n. f k)"
  by (simp add: interv_sum_list_conv_sum_set_nat atLeast0LessThan)

lemma add_eye:
  assumes "nrows adj = ncols adj"
  shows "mat_add adj (eye (nrows adj)) =
           Inr \<lparr>nrows = nrows adj, ncols = nrows adj,
                ent = (\<lambda>i j. ent adj i j + (if i = j then 1 else 0))\<rparr>"
  using assms by (simp add: mat_add_def eye_def)

lemma row_sums_nth:
  "i < nrows m \<Longrightarrow> row_sums m ! i = (\<Sum>j<ncols m. ent m i j)"
  by (simp add: row_sums_def sum_list_upt)

lemma length_row_sums: "length (row_sums m) = nrows m"
  by (simp add: row_sums_def)

lemma sum_plus_delta:
  assumes "i < (n::nat)"
  shows "(\<Sum>j<n. f j + (if i = j then 1 else 0 :: real)) = (\<Sum>j<n. f j) + 1"
proof -
  have "(\<Sum>j<n. f j + (if i = j then 1 else 0 :: real)) =
        (\<Sum>j<n. f j) + (\<Sum>j<n. if i = j then 1 else 0)"
    by (simp add: sum.distrib)
  also have "(\<Sum>j<n. if i = j then 1 else 0 :: real) = 1"
    using assms by (simp add: sum.delta')
  finally show ?thesis .
qed

lemma dot_diags:
  assumes "j < length d"
  shows "sum_list (map (\<lambda>k. f k * ent (diags d) k j) [0..<length d]) = f j * d ! j"
proof -
  have "(\<Sum>k<length d. f k * ent (diags d) k j) =
        (\<Sum>k<length d. if k = j then f j * d ! j else 0)"
    by (rule sum.cong) (auto simp: diags_def)
  also have "\<dots> = f j * d ! j"
    using assms by simp
  finally show ?thesis by (simp add: sum_list_upt)
qed

lemma tuple_ent_sparse_to_tuple:
  assumes "i < nrows m" and "j < ncols m"
  shows "tuple_ent (sparse_to_tuple m) i j = ent m i j"
proof -
  have "map_of (zip (coords m) (map (\<lambda>(i, j). ent m i j) (coords m))) (i, j) =
        (if (i, j) \<in> set (coords m) then Some (ent m i j) else None)"
    by (simp add: map_of_zip_map)
  moreover have "(i, j) \<in> set (coords m) \<longleftrightarrow> ent m i j \<noteq> 0"
    using assms by (auto simp: coords_def)
  ultimately show ?thesis
    by (simp add: tuple_ent_def sparse_to_tuple_def)
qed

lemma powr_neg_half_bounds:
  assumes "1 \<le> (x::real)"
  shows "0 < x powr (- 0.5)" and "x powr (- 0.5) \<le> 1"
proof -
  from assms have pos: "0 < x" by simp
  then show "0 < x powr (- 0.5)" by simp
  have "x powr (- 0.5) \<le> x powr 0"
    using assms by (intro powr_mono) simp_all
  then show "x powr (- 0.5) \<le> 1" using pos by simp
qed

text \<open>The entries of the normalised matrix, before it is turned into a tuple.\<close>

lemma preprocess_graph_entries:
  assumes sq: "nrows adj = ncols adj"
    and pos: "\<forall>i<nrows adj. 0 < (\<Sum>j<nrows adj. ent adj i j + (if i = j then 1 else 0))"
  shows "\<exists>m. preprocess_graph adj = Inr (sparse_to_tuple m) \<and>
             nrows m = nrows adj \<and> ncols m = nrows adj \<and>
             (\<forall>i<nrows adj. \<forall>j<nrows adj.
                ent m i j =
                  (ent adj j i + (if j = i then 1 else 0))
                  * (\<Sum>k<nrows adj. ent adj i k + (if i = k then 1 else 0)) powr (- 0.5)
                  * (\<Sum>k<nrows adj. ent adj j k + (if j = k then 1 else 0)) powr (- 0.5))"
proof -
  define n where "n = nrows adj"
  define adjI where
    "adjI = \<lparr>nrows = n, ncols = n, ent = (\<lambda>i j. ent adj i j + (if i = j then 1 else 0))\<rparr>"
  define rs where "rs = (\<lambda>i. \<Sum>k<n. ent adj i k + (if i = k then 1 else 0))"
  define d where "d = map (\<lambda>x. x powr (- 0.5)) (row_sums adjI)"
  have add: "mat_add adj (eye (nrows adj)) = Inr adjI"
    using add_eye [OF sq] by (simp add: adjI_def n_def)
  have rs_nth: "row_sums adjI ! i = rs i" if "i < n" for i
    using that row_sums_nth [of i adjI] by (simp add: adjI_def rs_def)
  have len: "length (row_sums adjI) = n"
    by (simp add: length_row_sums adjI_def)
  have rs_pos: "0 < x" if "x \<in> set (row_sums adjI)" for x
  proof -
    from that obtain i where "i < n" and "x = row_sums adjI ! i"
      using len by (auto simp: in_set_conv_nth)
    then show ?thesis using pos rs_nth by (simp add: rs_def n_def)
  qed
  have pw: "np_power_neg_half (row_sums adjI) = Inr d"
    using rs_pos by (fastforce simp: np_power_neg_half_def list_ex_iff d_def)
  have lend: "length d = n" by (simp add: d_def len)
  have d_nth: "d ! i = rs i powr (- 0.5)" if "i < n" for i
    using that by (simp add: d_def len rs_nth)
  define m1 where
    "m1 = \<lparr>nrows = n, ncols = n,
           ent = (\<lambda>i j. sum_list (map (\<lambda>k. ent adjI i k * ent (diags d) k j) [0..<n]))\<rparr>"
  have dot1: "mat_dot adjI (diags d) = Inr m1"
    by (simp add: mat_dot_def m1_def adjI_def diags_def lend)
  have m1_ent: "ent m1 i j = ent adjI i j * d ! j" if "j < n" for i j
    using dot_diags [of j d "\<lambda>k. ent adjI i k"] that by (simp add: m1_def lend)
  define m where
    "m = \<lparr>nrows = n, ncols = n,
          ent = (\<lambda>i j. sum_list (map (\<lambda>k. ent (mat_transpose m1) i k * ent (diags d) k j) [0..<n]))\<rparr>"
  have dot2: "mat_dot (mat_transpose m1) (diags d) = Inr m"
    by (simp add: mat_dot_def m_def m1_def mat_transpose_def diags_def lend)
  have m_ent: "ent m i j = ent adjI j i * d ! i * d ! j" if "i < n" "j < n" for i j
    using dot_diags [of j d "\<lambda>k. ent (mat_transpose m1) i k"] that m1_ent [of i j]
    by (simp add: m_def lend mat_transpose_def)
  have "preprocess_graph adj = Inr (sparse_to_tuple m)"
    by (simp add: preprocess_graph_def add pw dot1 dot2 Let_def)
  moreover have "nrows m = nrows adj" "ncols m = nrows adj"
    by (simp_all add: m_def n_def)
  moreover have "ent m i j =
      (ent adj j i + (if j = i then 1 else 0)) * rs i powr (- 0.5) * rs j powr (- 0.5)"
    if "i < n" "j < n" for i j
    using that by (simp add: m_ent d_nth adjI_def)
  ultimately show ?thesis
    unfolding rs_def n_def by blast
qed


lemma row_sum_self_loop:
  assumes "i < n" and "\<forall>j<n. 0 \<le> ent adj i j"
  shows "1 \<le> (\<Sum>j<n. ent adj i j + (if i = j then 1 else 0))"
proof -
  have "0 \<le> (\<Sum>j<n. ent adj i j)"
    using assms(2) by (intro sum_nonneg) simp
  then show ?thesis
    using sum_plus_delta [OF assms(1), of "\<lambda>j. ent adj i j"] by simp
qed

text \<open>
  Claim C8. For a square matrix without negative entries (every adjacency matrix is
  one), each row sum of \<open>A + I\<close> is at least 1, so \<open>np.power(rowsum, -0.5)\<close> is applied
  to positive numbers only: it signals no division by zero, and \<open>preprocess_graph\<close>
  returns.
\<close>

theorem degree_normalization_defined:
  assumes "is_nonneg_square adj"
  shows "\<exists>adjI d t.
           mat_add adj (eye (nrows adj)) = Inr adjI \<and>
           list_all (\<lambda>x. 1 \<le> x) (row_sums adjI) \<and>
           np_power_neg_half (row_sums adjI) = Inr d \<and>
           preprocess_graph adj = Inr t"
proof -
  define n where "n = nrows adj"
  have sq: "nrows adj = ncols adj" and nonneg: "\<forall>i<n. \<forall>j<n. 0 \<le> ent adj i j"
    using assms by (simp_all add: is_nonneg_square_def list_all_upt n_def)
  define adjI where
    "adjI = \<lparr>nrows = n, ncols = n, ent = (\<lambda>i j. ent adj i j + (if i = j then 1 else 0))\<rparr>"
  have add: "mat_add adj (eye (nrows adj)) = Inr adjI"
    using add_eye [OF sq] by (simp add: adjI_def n_def)
  have ge1: "1 \<le> (\<Sum>j<n. ent adj i j + (if i = j then 1 else 0))" if "i < n" for i
    using that nonneg by (intro row_sum_self_loop) simp_all
  have rows: "list_all (\<lambda>x. 1 \<le> x) (row_sums adjI)"
    using ge1 by (simp add: row_sums_def adjI_def list_all_iff sum_list_upt)
  then have "\<forall>x\<in>set (row_sums adjI). 0 < x"
    by (fastforce simp: list_all_iff)
  then have pw: "np_power_neg_half (row_sums adjI) = Inr (map (\<lambda>x. x powr (- 0.5)) (row_sums adjI))"
    by (fastforce simp: np_power_neg_half_def list_ex_iff)
  have "\<forall>i<nrows adj. 0 < (\<Sum>j<nrows adj. ent adj i j + (if i = j then 1 else 0))"
    using ge1 by (fastforce simp: n_def)
  from preprocess_graph_entries [OF sq this]
  obtain t where "preprocess_graph adj = Inr t" by blast
  with add rows pw show ?thesis by blast
qed

lemma powr_neg_half_sqrt: "0 < x \<Longrightarrow> x powr (- 0.5) = 1 / sqrt x" for x :: real
proof -
  assume "0 < x"
  then have "x powr (1 / 2) = sqrt x"
    by (simp add: powr_half_sqrt)
  moreover have "x powr (- 0.5) = inverse (x powr (1 / 2))"
    by (simp add: powr_minus)
  ultimately show ?thesis
    by (simp add: inverse_eq_divide)
qed

text \<open>
  Claim C5. For the adjacency matrix \<open>A\<close> of an undirected, unweighted graph without
  self-loops, \<open>preprocess_graph\<close> returns the matrix
  \<open>D^(-1/2) (A + I) D^(-1/2)\<close>, where \<open>D\<close> holds the row sums of \<open>A + I\<close>: its entry
  \<open>(i, j)\<close> is \<open>(A + I)(i, j) / (sqrt (D i) * sqrt (D j))\<close>. That matrix is symmetric and
  has every entry in \<open>[0, 1]\<close>; in the row of an isolated node the only stored entry is
  the diagonal one, and its value is 1.
\<close>

theorem normalized_adjacency:
  assumes "is_adjacency adj"
  shows "\<exists>t. preprocess_graph adj = Inr t \<and>
           snd (snd t) = (nrows adj, nrows adj) \<and>
           (\<forall>i<nrows adj. \<forall>j<nrows adj. tuple_ent t i j = sym_normalized adj i j) \<and>
           (\<forall>i<nrows adj. \<forall>j<nrows adj.
              tuple_ent t i j = tuple_ent t j i \<and> 0 \<le> tuple_ent t i j \<and> tuple_ent t i j \<le> 1) \<and>
           (\<forall>i<nrows adj. isolated adj i \<longrightarrow>
              {c \<in> set (fst t). fst c = i} = {(i, i)} \<and> tuple_ent t i i = 1)"
proof -
  define n where "n = nrows adj"
  have sq: "nrows adj = ncols adj"
    and bin: "\<And>i j. i < n \<Longrightarrow> j < n \<Longrightarrow> ent adj i j = 0 \<or> ent adj i j = 1"
    and sym: "\<And>i j. i < n \<Longrightarrow> j < n \<Longrightarrow> ent adj i j = ent adj j i"
    and diag: "\<And>i. i < n \<Longrightarrow> ent adj i i = 0"
    using assms by (auto simp: is_adjacency_def list_all_upt n_def)
  define a where "a = (\<lambda>i j. ent adj i j + (if i = j then 1 else 0))"
  define rs where "rs = (\<lambda>i. \<Sum>k<n. a i k)"
  have a_bin: "a i j = 0 \<or> a i j = 1" if "i < n" "j < n" for i j
    using bin [OF that] diag [OF that(1)] by (auto simp: a_def)
  have a_sym: "a i j = a j i" if "i < n" "j < n" for i j
    using sym [OF that] by (auto simp: a_def)
  have rs_ge1: "1 \<le> rs i" if "i < n" for i
  proof -
    have "\<forall>j<n. 0 \<le> ent adj i j" using bin [OF that] by fastforce
    then show ?thesis
      unfolding rs_def a_def using that by (intro row_sum_self_loop) simp_all
  qed
  have "\<forall>i<nrows adj. 0 < (\<Sum>j<nrows adj. ent adj i j + (if i = j then 1 else 0))"
    using rs_ge1 by (fastforce simp: n_def rs_def a_def)
  from preprocess_graph_entries [OF sq this]
  obtain m where run: "preprocess_graph adj = Inr (sparse_to_tuple m)"
    and nr: "nrows m = n" and nc: "ncols m = n"
    and ent_m: "\<And>i j. i < n \<Longrightarrow> j < n \<Longrightarrow>
                  ent m i j = a j i * rs i powr (- 0.5) * rs j powr (- 0.5)"
    unfolding n_def rs_def a_def by blast
  define t where "t = sparse_to_tuple m"
  have t_ent: "tuple_ent t i j = a j i * rs i powr (- 0.5) * rs j powr (- 0.5)"
    if "i < n" "j < n" for i j
    using that by (simp add: t_def tuple_ent_sparse_to_tuple nr nc ent_m)
  have symm: "tuple_ent t i j = tuple_ent t j i" if "i < n" "j < n" for i j
    using that by (simp add: t_ent a_sym [of i j])
  have range: "0 \<le> tuple_ent t i j \<and> tuple_ent t i j \<le> 1" if "i < n" "j < n" for i j
  proof -
    have d: "0 < rs i powr (- 0.5)" "rs i powr (- 0.5) \<le> 1"
            "0 < rs j powr (- 0.5)" "rs j powr (- 0.5) \<le> 1"
      using powr_neg_half_bounds [OF rs_ge1 [OF that(1)]]
        powr_neg_half_bounds [OF rs_ge1 [OF that(2)]] by simp_all
    then have "rs i powr (- 0.5) * rs j powr (- 0.5) \<le> 1"
      by (intro mult_le_one) simp_all
    moreover have "0 \<le> rs i powr (- 0.5) * rs j powr (- 0.5)"
      using d by simp
    ultimately show ?thesis
      using a_bin [OF that(2) that(1)] by (auto simp: t_ent that mult.assoc)
  qed
  have iso: "{c \<in> set (fst t). fst c = i} = {(i, i)} \<and> tuple_ent t i i = 1"
    if "i < n" and "isolated adj i" for i
  proof -
    have zero: "ent adj i j = 0" if "j < n" for j
      using \<open>isolated adj i\<close> that sq by (simp add: isolated_def list_all_upt n_def)
    have "rs i = 1"
      using sum_plus_delta [OF \<open>i < n\<close>, of "\<lambda>j. ent adj i j"] zero
      by (simp add: rs_def a_def)
    then have one: "tuple_ent t i i = 1"
      using \<open>i < n\<close> diag by (simp add: t_ent a_def)
    have off: "ent m i j = 0" if "j < n" "j \<noteq> i" for j
      using that \<open>i < n\<close> zero [OF that(1)] sym [of i j]
      by (simp add: ent_m a_def)
    have on: "ent m i i \<noteq> 0"
      using one \<open>i < n\<close> by (simp add: t_def tuple_ent_sparse_to_tuple nr nc)
    have "{c \<in> set (fst t). fst c = i} = {(i, i)}"
      using off on \<open>i < n\<close>
      by (auto simp: t_def sparse_to_tuple_def set_coords nr nc) blast
    with one show ?thesis by simp
  qed
  have formula: "tuple_ent t i j = sym_normalized adj i j" if "i < n" "j < n" for i j
  proof -
    have deg: "self_loop_degree adj k = rs k" for k
      using sq by (simp add: self_loop_degree_def sum_list_upt rs_def a_def n_def)
    have "0 < rs i" "0 < rs j"
      using rs_ge1 [OF that(1)] rs_ge1 [OF that(2)] by simp_all
    then have "rs i powr (- 0.5) = 1 / sqrt (rs i)" "rs j powr (- 0.5) = 1 / sqrt (rs j)"
      by (simp_all only: powr_neg_half_sqrt)
    then have "tuple_ent t i j = a j i * (1 / sqrt (rs i)) * (1 / sqrt (rs j))"
      using that by (simp only: t_ent)
    also have "\<dots> = (1 / sqrt (rs i)) * a i j * (1 / sqrt (rs j))"
      by (simp only: a_sym [OF that] mult.commute)
    also have "\<dots> = sym_normalized adj i j"
      by (simp only: sym_normalized_def deg a_def)
    finally show ?thesis .
  qed
  have "snd (snd t) = (nrows adj, nrows adj)"
    by (simp add: t_def sparse_to_tuple_def nr nc n_def)
  with run formula symm range iso show ?thesis
    unfolding t_def [symmetric] n_def [symmetric] by blast
qed


lemma small_graph_adjacency: "is_adjacency small_graph"
  by code_simp

lemma small_graph_nonneg: "is_nonneg_square small_graph"
  by code_simp

theorem degree_normalization_defined_witness:
  "is_nonneg_square small_graph \<and>
   (\<exists>adjI d t.
      mat_add small_graph (eye 3) = Inr adjI \<and>
      list_all (\<lambda>x. 1 \<le> x) (row_sums adjI) \<and>
      np_power_neg_half (row_sums adjI) = Inr d \<and>
      preprocess_graph small_graph = Inr t)"
proof -
  have n: "nrows small_graph = 3" by (simp add: small_graph_def)
  show ?thesis
    using degree_normalization_defined [OF small_graph_nonneg] small_graph_nonneg
    by (simp add: n)
qed

lemma small_graph_normalized:
  "sym_normalized small_graph 0 0 = 1 / 2 \<and> sym_normalized small_graph 0 1 = 1 / 2 \<and>
   sym_normalized small_graph 0 2 = 0 \<and> sym_normalized small_graph 1 1 = 1 / 2"
proof -
  have up: "[0..<3] = [0, 1, 2]"
    by (simp add: upt_rec)
  have half: "1 / (sqrt 2 * sqrt 2) = (1 / 2 :: real)"
    by simp
  show ?thesis
    by (simp add: sym_normalized_def self_loop_degree_def small_graph_def up half)
qed

theorem normalized_adjacency_witness:
  "is_adjacency small_graph \<and> isolated small_graph 2 \<and>
   (\<exists>t. preprocess_graph small_graph = Inr t \<and>
        snd (snd t) = (3, 3) \<and>
        tuple_ent t 0 0 = 1 / 2 \<and> tuple_ent t 0 1 = 1 / 2 \<and> tuple_ent t 0 2 = 0 \<and>
        tuple_ent t 1 1 = 1 / 2 \<and>
        tuple_ent t 0 1 = tuple_ent t 1 0 \<and> 0 \<le> tuple_ent t 0 1 \<and> tuple_ent t 0 1 \<le> 1 \<and>
        {c \<in> set (fst t). fst c = 2} = {(2, 2)} \<and> tuple_ent t 2 2 = 1)"
proof -
  have n: "nrows small_graph = 3" by (simp add: small_graph_def)
  have iso: "isolated small_graph 2" by code_simp
  from normalized_adjacency [OF small_graph_adjacency] obtain t where
    run: "preprocess_graph small_graph = Inr t" and
    shape: "snd (snd t) = (3, 3)" and
    formula: "\<forall>i<3. \<forall>j<3. tuple_ent t i j = sym_normalized small_graph i j" and
    ents: "\<forall>i<3. \<forall>j<3. tuple_ent t i j = tuple_ent t j i \<and> 0 \<le> tuple_ent t i j
              \<and> tuple_ent t i j \<le> 1" and
    isol: "\<forall>i<3. isolated small_graph i \<longrightarrow>
              {c \<in> set (fst t). fst c = i} = {(i, i)} \<and> tuple_ent t i i = 1"
    unfolding n by blast
  from ents have "tuple_ent t 0 1 = tuple_ent t 1 0 \<and> 0 \<le> tuple_ent t 0 1 \<and> tuple_ent t 0 1 \<le> 1"
    by simp
  moreover from isol iso have "{c \<in> set (fst t). fst c = 2} = {(2, 2)} \<and> tuple_ent t 2 2 = 1"
    by simp
  moreover have "tuple_ent t 0 0 = 1 / 2 \<and> tuple_ent t 0 1 = 1 / 2
      \<and> tuple_ent t 0 2 = 0 \<and> tuple_ent t 1 1 = 1 / 2"
  proof -
    have "tuple_ent t 0 0 = sym_normalized small_graph 0 0"
      "tuple_ent t 0 1 = sym_normalized small_graph 0 1"
      "tuple_ent t 0 2 = sym_normalized small_graph 0 2"
      "tuple_ent t 1 1 = sym_normalized small_graph 1 1"
      using formula by simp_all
    then show ?thesis
      by (simp only: small_graph_normalized)
  qed
  ultimately show ?thesis
    using small_graph_adjacency iso run shape by blast
qed

section \<open>Properties of the loss\<close>










section \<open>Properties of the weights and the decoder\<close>

lemma float32_round_of_int:
  assumes "\<bar>m\<bar> < 2 ^ 24"
  shows "float32_round (of_int m) = of_int m"
proof -
  have "on_grid 24 (- 126) (of_int m * 2 powr of_int 0)"
    unfolding on_grid_def by (rule exI [of _ m], rule exI [of _ 0]) (use assms in simp)
  then have "on_grid 24 (- 126) (of_int m)" by simp
  then show ?thesis
    unfolding float32_round_def by (rule float_round_on_grid)
qed

lemma float64_round_of_int:
  assumes "\<bar>m\<bar> < 2 ^ 53"
  shows "float64_round (of_int m) = of_int m"
proof -
  have "on_grid 53 (- 1022) (of_int m * 2 powr of_int 0)"
    unfolding on_grid_def by (rule exI [of _ m], rule exI [of _ 0]) (use assms in simp)
  then have "on_grid 53 (- 1022) (of_int m)" by simp
  then show ?thesis
    unfolding float64_round_def by (rule float_round_on_grid)
qed

lemma glorot_range32_nonneg: "0 \<le> glorot_range32 a b"
proof -
  have "0 \<le> glorot_init_range a b"
    unfolding glorot_init_range_def float64_round_def
    by (intro float_round_nonneg real_sqrt_ge_zero divide_nonneg_nonneg) simp_all
  then show ?thesis
    unfolding glorot_range32_def float32_round_def by (rule float_round_nonneg)
qed

lemma glorot_range32_on_grid: "on_grid 24 (- 126) (glorot_range32 a b)"
  unfolding glorot_range32_def float32_round_def by (rule on_grid_float_round) simp

text \<open>
  The float32 computation \<open>rnd * (maxval - minval) + minval\<close> with
  \<open>minval = - R\<close> and \<open>maxval = R\<close> for a float32 number \<open>R \<ge> 0\<close> stays within
  \<open>[- R, R]\<close>: rounding is monotone and keeps \<open>0\<close>, \<open>R\<close>, \<open>- R\<close> and \<open>2 * R\<close>.
\<close>

lemma random_uniform_range:
  assumes grid: "on_grid 24 (- 126) R" and R: "0 \<le> R"
    and u: "0 \<le> u i j" "u i j < 1"
  shows "- R \<le> ent (random_uniform a b (- R) R u) i j
       \<and> ent (random_uniform a b (- R) R u) i j \<le> R"
proof -
  have fixR: "float32_round R = R" and fixmR: "float32_round (- R) = - R"
    and fix2R: "float32_round (2 * R) = 2 * R"
    unfolding float32_round_def
    using grid by (intro float_round_on_grid on_grid_minus on_grid_double; assumption)+
  define t where "t = float32_round (u i j * float32_round (R - (- R)))"
  have t: "t = float32_round (u i j * (2 * R))"
    by (simp add: t_def fix2R)
  have "0 \<le> u i j * (2 * R)" using u(1) R by simp
  then have "float32_round 0 \<le> t"
    unfolding t float32_round_def by (intro float_round_mono) simp_all
  then have t0: "0 \<le> t" by (simp add: float32_round_def)
  have "u i j * (2 * R) \<le> 1 * (2 * R)"
    using u(2) R by (intro mult_right_mono) simp_all
  then have "t \<le> float32_round (2 * R)"
    unfolding t float32_round_def by (intro float_round_mono) simp_all
  then have t1: "t \<le> 2 * R" by (simp add: fix2R)
  have e: "ent (random_uniform a b (- R) R u) i j = float32_round (t + (- R))"
    by (simp add: random_uniform_def t_def)
  have "float32_round (- R) \<le> float32_round (t + (- R))"
    unfolding float32_round_def using t0 by (intro float_round_mono) simp_all
  moreover have "float32_round (t + (- R)) \<le> float32_round R"
    unfolding float32_round_def using t1 by (intro float_round_mono) simp_all
  ultimately show ?thesis
    by (simp add: e fixR fixmR)
qed

lemma glorot_range:
  assumes draws: "unit_draws a b u"
    and w: "weight_variable_glorot a b u = Inr w"
  shows "nrows w = a \<and> ncols w = b \<and>
         (\<forall>i<a. \<forall>j<b. - glorot_range32 a b \<le> ent w i j \<and> ent w i j \<le> glorot_range32 a b)"
proof -
  define R where "R = glorot_range32 a b"
  have neg: "float32_round (- glorot_init_range a b) = - R"
    by (simp add: R_def glorot_range32_def float32_round_def float_round_minus)
  have w': "w = random_uniform a b (- R) R u"
    using w
    by (simp add: weight_variable_glorot_def Let_def neg R_def [symmetric]
        glorot_range32_def [symmetric] split: if_splits)
  have u: "0 \<le> u i j \<and> u i j < 1" if "i < a" "j < b" for i j
    using draws that by (simp add: unit_draws_def list_all_upt)
  have "- R \<le> ent w i j \<and> ent w i j \<le> R" if "i < a" "j < b" for i j
    unfolding w' using u [OF that] glorot_range32_on_grid [of a b] glorot_range32_nonneg [of a b]
    by (intro random_uniform_range) (simp_all add: R_def)
  moreover have "nrows w = a \<and> ncols w = b"
    by (simp add: w' random_uniform_def)
  ultimately show ?thesis by (simp add: R_def)
qed


text \<open>
  Claim C9, amended. Each of the two weight matrices that the model creates, of shape
  \<open>[input_dim, hidden1]\<close> and \<open>[hidden1, hidden2]\<close>, has every entry in the closed
  interval \<open>[- r, r]\<close>, where \<open>r\<close> is \<open>np.sqrt(6.0 / (fan_in + fan_out))\<close> rounded to
  float32, whatever the uniform draws from \<open>[0, 1)\<close> are. (\<open>r\<close> can be greater than
  the exact square root.)
\<close>

theorem glorot_float32_weights:
  assumes "unit_draws input_dim hidden1 u1"
    and "unit_draws hidden1 hidden2 u2"
    and "GCNModel_weights input_dim hidden1 hidden2 u1 u2 = Inr (w1, w2)"
  shows "(nrows w1 = input_dim \<and> ncols w1 = hidden1 \<and>
          (\<forall>i<input_dim. \<forall>j<hidden1.
             - glorot_range32 input_dim hidden1 \<le> ent w1 i j
             \<and> ent w1 i j \<le> glorot_range32 input_dim hidden1)) \<and>
         (nrows w2 = hidden1 \<and> ncols w2 = hidden2 \<and>
          (\<forall>i<hidden1. \<forall>j<hidden2.
             - glorot_range32 hidden1 hidden2 \<le> ent w2 i j
             \<and> ent w2 i j \<le> glorot_range32 hidden1 hidden2))"
proof -
  from assms(3) have "weight_variable_glorot input_dim hidden1 u1 = Inr w1"
    and "weight_variable_glorot hidden1 hidden2 u2 = Inr w2"
    by (auto simp: GCNModel_weights_def split: sum.splits)
  then show ?thesis
    using glorot_range [OF assms(1)] glorot_range [OF assms(2)] by blast
qed

lemma glorot_range32_6: "a + b = 6 \<Longrightarrow> glorot_range32 a b = 1"
  using float64_round_of_int [of 6] float64_round_of_int [of 1] float32_round_of_int [of 1]
  by (simp add: glorot_range32_def glorot_init_range_def)

theorem glorot_float32_weights_witness:
  "unit_draws 2 4 (\<lambda>i j. 0) \<and> unit_draws 4 2 (\<lambda>i j. 1 / 2) \<and>
   glorot_range32 2 4 = 1 \<and> glorot_range32 4 2 = 1 \<and>
   (\<exists>w1 w2. GCNModel_weights 2 4 2 (\<lambda>i j. 0) (\<lambda>i j. 1 / 2) = Inr (w1, w2) \<and>
      ent w1 1 3 = - 1 \<and> - glorot_range32 2 4 \<le> ent w1 1 3 \<and> ent w1 1 3 \<le> glorot_range32 2 4 \<and>
      ent w2 3 1 = 0 \<and> - glorot_range32 4 2 \<le> ent w2 3 1 \<and> ent w2 3 1 \<le> glorot_range32 4 2)"
proof -
  have d1: "unit_draws 2 4 (\<lambda>i j. 0)" and d2: "unit_draws 4 2 (\<lambda>i j. 1 / 2)"
    by (simp_all add: unit_draws_def list_all_upt)
  have r1: "glorot_range32 2 4 = 1" and r2: "glorot_range32 4 2 = 1"
    by (simp_all add: glorot_range32_6)
  have i1: "float32_round (glorot_init_range 2 4) = 1"
    and i2: "float32_round (glorot_init_range 4 2) = 1"
    using r1 r2 by (simp_all add: glorot_range32_def)
  have m1: "float32_round (- glorot_init_range 2 4) = - 1"
    and m2: "float32_round (- glorot_init_range 4 2) = - 1"
    using i1 i2 by (simp_all add: float32_round_def float_round_minus)
  have f: "float32_round 2 = 2" "float32_round 1 = 1" "float32_round (- 1) = - 1"
    "float32_round 0 = 0"
    using float32_round_of_int [of 2] float32_round_of_int [of 1] float32_round_of_int [of "- 1"]
      float32_round_of_int [of 0]
    by simp_all
  obtain w1 w2 where w: "GCNModel_weights 2 4 2 (\<lambda>i j. 0) (\<lambda>i j. 1 / 2) = Inr (w1, w2)"
    and e1: "ent w1 1 3 = - 1" and e2: "ent w2 3 1 = 0"
    by (simp add: GCNModel_weights_def weight_variable_glorot_def random_uniform_def
        i1 i2 m1 m2 f)
  have "- glorot_range32 2 4 \<le> ent w1 1 3 \<and> ent w1 1 3 \<le> glorot_range32 2 4"
    and "- glorot_range32 4 2 \<le> ent w2 3 1 \<and> ent w2 3 1 \<le> glorot_range32 4 2"
    using glorot_float32_weights [OF d1 d2 w] by simp_all
  then show ?thesis
    using d1 d2 r1 r2 w e1 e2 by blast
qed

lemma glorot_range32_7000:
  assumes "a + b = 7000"
  shows "glorot_range32 a b = 15717971 / 2 ^ 29"
proof -
  have "real (a + b) = 7000" using assms by simp
  then show ?thesis
    unfolding glorot_range32_def glorot_init_range_def
    by (simp only: float64_7000 float64_6_7000 float64_sqrt_6_7000 float32_sqrt_6_7000)
qed

text \<open>
  Claim C9 as stated fails for 6968 nodes and the default 32 hidden units: with the
  draw 0 the entry is \<open>minval\<close>, the float32 number \<open>- 15717971 / 2 ^ 29\<close>, which is
  below \<open>- sqrt (6 / 7000)\<close>.
\<close>

theorem glorot_exact_bound_exceeded:
  "unit_draws 6968 32 (\<lambda>i j. 0) \<and> unit_draws 32 16 (\<lambda>i j. 0) \<and>
   map_sum id (\<lambda>w. ent (fst w) 0 0) (GCNModel_weights 6968 32 16 (\<lambda>i j. 0) (\<lambda>i j. 0)) =
     Inr (- (15717971 / 2 ^ 29)) \<and>
   - (15717971 / 2 ^ 29) < - sqrt (6 / real (6968 + 32))"
proof -
  have d: "unit_draws 6968 32 (\<lambda>i j. 0)" "unit_draws 32 16 (\<lambda>i j. 0)"
    by (simp_all add: unit_draws_def list_all_upt)
  have r: "float32_round (glorot_init_range 6968 32) = 15717971 / 2 ^ 29"
    using glorot_range32_7000 [of 6968 32] by (simp add: glorot_range32_def)
  have m: "float32_round (- glorot_init_range 6968 32) = - (15717971 / 2 ^ 29)"
    using r by (simp add: float32_round_def float_round_minus)
  have "on_grid 24 (- 126) (glorot_range32 6968 32)" by (rule glorot_range32_on_grid)
  then have "on_grid 24 (- 126) (- (15717971 / 2 ^ 29))"
    using glorot_range32_7000 [of 6968 32] on_grid_minus by fastforce
  then have fixed: "float32_round (- (15717971 / 2 ^ 29)) = - (15717971 / 2 ^ 29)"
    unfolding float32_round_def by (rule float_round_on_grid)
  have run: "map_sum id (\<lambda>w. ent (fst w) 0 0)
        (GCNModel_weights 6968 32 16 (\<lambda>i j. 0) (\<lambda>i j. 0)) = Inr (- (15717971 / 2 ^ 29))"
    using fixed
    by (simp add: GCNModel_weights_def weight_variable_glorot_def random_uniform_def r m
        float32_round_def [of 0])
  have "sqrt (6 / real (6968 + 32)) < 15717971 / 2 ^ 29"
    using above_exact by simp
  then show ?thesis
    using d run by simp
qed

lemma dot_transpose: "mat_dot x (mat_transpose x) = Inr (gram x)"
  by (simp add: mat_dot_def mat_transpose_def gram_def)

lemma flatten_product:
  "flatten x = map (\<lambda>(i, j). ent x i j) (List.product [0..<nrows x] [0..<ncols x])"
proof -
  have "concat (map (\<lambda>i. map (\<lambda>j. f i j) ys) xs) = map (\<lambda>(i, j). f i j) (List.product xs ys)"
    for f :: "nat \<Rightarrow> nat \<Rightarrow> real" and xs ys
    by (induction xs) (simp_all add: comp_def)
  then show ?thesis by (simp add: flatten_def)
qed

lemma length_flatten: "length (flatten x) = nrows x * ncols x"
  by (simp add: flatten_product)

lemma flatten_nth:
  assumes "i < nrows x" and "j < ncols x"
  shows "flatten x ! (i * ncols x + j) = ent x i j"
proof -
  have lt: "i * ncols x + j < nrows x * ncols x"
  proof -
    have "i * ncols x + j < i * ncols x + ncols x" using assms(2) by simp
    also have "\<dots> = Suc i * ncols x" by simp
    also have "\<dots> \<le> nrows x * ncols x"
      using assms(1) by (intro mult_le_mono1) simp
    finally show ?thesis .
  qed
  have "List.product [0..<nrows x] [0..<ncols x] ! (i * ncols x + j) = (i, j)"
    using lt assms by (simp add: product_nth)
  then show ?thesis
    using lt by (simp add: flatten_product)
qed

text \<open>
  Claim C7. The decoder returns \<open>act\<close> applied elementwise to the flattened Gram
  matrix of the dropout-applied embeddings. With the constructor's defaults this is the
  sigmoid of the flattened Gram matrix of the input. \<open>GCNModel\<close> creates the decoder
  with the identity as activation, so its reconstructions are the flattened Gram matrix
  itself: entry \<open>i * N + j\<close> is the inner product of the embeddings of \<open>i\<close> and \<open>j\<close>.
\<close>

theorem decoder_output:
  "(tf_dropout keep_mask inputs (1 - dropout) = Inr e_drop \<longrightarrow>
      InnerProductDecoder_call dropout act keep_mask inputs =
        Inr (map act (flatten (gram e_drop)))) \<and>
   InnerProductDecoder_default keep_mask inputs = Inr (map sigmoid (flatten (gram inputs))) \<and>
   GCNModel_reconstructions keep_mask inputs = Inr (flatten (gram inputs)) \<and>
   length (flatten (gram inputs)) = nrows inputs * nrows inputs \<and>
   (\<forall>i<nrows inputs. \<forall>j<nrows inputs.
      flatten (gram inputs) ! (i * nrows inputs + j) =
        (\<Sum>k<ncols inputs. ent inputs i k * ent inputs j k))"
proof (intro conjI impI allI)
  assume "tf_dropout keep_mask inputs (1 - dropout) = Inr e_drop"
  then show "InnerProductDecoder_call dropout act keep_mask inputs =
        Inr (map act (flatten (gram e_drop)))"
    by (simp add: InnerProductDecoder_call_def dot_transpose)
next
  show "InnerProductDecoder_default keep_mask inputs = Inr (map sigmoid (flatten (gram inputs)))"
    by (simp add: InnerProductDecoder_default_def InnerProductDecoder_call_def tf_dropout_def
        dot_transpose)
next
  show "GCNModel_reconstructions keep_mask inputs = Inr (flatten (gram inputs))"
    by (simp add: GCNModel_reconstructions_def InnerProductDecoder_call_def tf_dropout_def
        dot_transpose)
next
  show "length (flatten (gram inputs)) = nrows inputs * nrows inputs"
    by (simp add: length_flatten gram_def)
next
  fix i j
  assume "i < nrows inputs" and "j < nrows inputs"
  then show "flatten (gram inputs) ! (i * nrows inputs + j) =
        (\<Sum>k<ncols inputs. ent inputs i k * ent inputs j k)"
    using flatten_nth [of i "gram inputs" j]
    by (simp add: gram_def interv_sum_list_conv_sum_set_nat atLeast0LessThan)
qed


theorem decoder_output_witness:
  "\<exists>e_drop.
     tf_dropout (\<lambda>i j. True) small_embedding (1 - 1 / 2) = Inr e_drop \<and>
     InnerProductDecoder_call (1 / 2) (\<lambda>x. x) (\<lambda>i j. True) small_embedding =
       Inr (map (\<lambda>x. x) (flatten (gram e_drop))) \<and>
     InnerProductDecoder_call (1 / 2) (\<lambda>x. x) (\<lambda>i j. True) small_embedding = Inr [4, 8, 8, 8, 16, 16, 8, 16, 16] \<and>
     GCNModel_reconstructions (\<lambda>i j. True) small_embedding = Inr [1, 2, 2, 2, 4, 4, 2, 4, 4]"
proof -
  obtain e_drop where d: "tf_dropout (\<lambda>i j. True) small_embedding (1 - 1 / 2) = Inr e_drop"
    by (simp add: tf_dropout_def)
  have call: "InnerProductDecoder_call (1 / 2) (\<lambda>x. x) (\<lambda>i j. True) small_embedding =
       Inr (map (\<lambda>x. x) (flatten (gram e_drop)))"
    and rec: "GCNModel_reconstructions (\<lambda>i j. True) small_embedding =
       Inr (flatten (gram small_embedding))"
    using decoder_output [of "\<lambda>i j. True" small_embedding "1 / 2" e_drop "\<lambda>x. x"] d
    by simp_all
  have v1: "flatten (gram e_drop) = [4, 8, 8, 8, 16, 16, 8, 16, 16]"
    using d by (auto simp: tf_dropout_def flatten_def gram_def small_embedding_def numeral_3_eq_3)
  have v2: "flatten (gram small_embedding) = [1, 2, 2, 2, 4, 4, 2, 4, 4]"
    by (simp add: flatten_def gram_def small_embedding_def numeral_3_eq_3)
  show ?thesis
    using d call rec v1 v2 by simp
qed

section \<open>Properties of the scoring\<close>

lemma score_edges_length:
  "score_edges adj_rec adj_orig es = Inr ps \<Longrightarrow> length ps = length es"
  by (auto simp: score_edges_def split: if_splits)

text \<open>
  Claim C10. The label vector that \<open>get_roc_score\<close> builds is \<open>len(edges_pos)\<close> ones
  followed by \<open>len(edges_pos)\<close> zeros, while the score vector has
  \<open>len(edges_pos) + len(edges_neg)\<close> entries. The two have the same length exactly
  when \<open>len(edges_pos) = len(edges_neg)\<close>; then every positive score is paired with 1
  and every negative score with 0, and only then does \<open>get_roc_score\<close> return.
\<close>

theorem roc_labels_from_positive_count:
  "(score_vectors emb adj_orig edges_pos edges_neg = Inr (preds_all, labels_all) \<longrightarrow>
      labels_all = replicate (length edges_pos) 1 @ replicate (length edges_pos) 0 \<and>
      length preds_all = length edges_pos + length edges_neg \<and>
      (length labels_all = length preds_all \<longleftrightarrow> length edges_pos = length edges_neg) \<and>
      (length edges_pos = length edges_neg \<longrightarrow>
         zip preds_all labels_all =
           map (\<lambda>p. (p, 1)) (take (length edges_pos) preds_all) @
           map (\<lambda>p. (p, 0)) (drop (length edges_pos) preds_all))) \<and>
   (get_roc_score roc_auc avg_precision emb adj_orig edges_pos edges_neg = Inr res \<longrightarrow>
      length edges_pos = length edges_neg)"
proof (intro conjI impI)
  assume sv: "score_vectors emb adj_orig edges_pos edges_neg = Inr (preds_all, labels_all)"
  then obtain preds preds_neg where
    p: "score_edges (gram emb) adj_orig edges_pos = Inr preds" and
    n: "score_edges (gram emb) adj_orig edges_neg = Inr preds_neg" and
    pa: "preds_all = preds @ preds_neg" and
    la: "labels_all = replicate (length preds) 1 @ replicate (length preds) 0"
    by (auto simp: score_vectors_def Let_def split: sum.splits)
  have lp: "length preds = length edges_pos" and ln: "length preds_neg = length edges_neg"
    using p n by (simp_all add: score_edges_length)
  show "labels_all = replicate (length edges_pos) 1 @ replicate (length edges_pos) 0"
    by (simp add: la lp)
  show "length preds_all = length edges_pos + length edges_neg"
    by (simp add: pa lp ln)
  show "length labels_all = length preds_all \<longleftrightarrow> length edges_pos = length edges_neg"
    by (auto simp: la pa lp ln)
  show "zip preds_all labels_all =
           map (\<lambda>p. (p, 1)) (take (length edges_pos) preds_all) @
           map (\<lambda>p. (p, 0)) (drop (length edges_pos) preds_all)"
    if "length edges_pos = length edges_neg"
  proof -
    have z: "zip xs (replicate (length xs) c) = map (\<lambda>p. (p, c)) xs" for xs :: "real list" and c :: real
      by (induction xs) simp_all
    have "zip preds_all labels_all =
            zip preds (replicate (length preds) 1) @ zip preds_neg (replicate (length preds) 0)"
      by (simp add: pa la)
    also have "\<dots> = map (\<lambda>p. (p, 1)) preds @ map (\<lambda>p. (p, 0)) preds_neg"
      using z [of preds 1] z [of preds_neg 0] that lp ln by simp
    finally show ?thesis
      by (simp add: pa lp [symmetric])
  qed
next
  assume "get_roc_score roc_auc avg_precision emb adj_orig edges_pos edges_neg = Inr res"
  then obtain preds_all labels_all where
    sv: "score_vectors emb adj_orig edges_pos edges_neg = Inr (preds_all, labels_all)" and
    len: "length labels_all = length preds_all"
    by (auto simp: get_roc_score_def sk_metric_def split: sum.splits if_splits)
  from sv obtain preds preds_neg where
    p: "score_edges (gram emb) adj_orig edges_pos = Inr preds" and
    n: "score_edges (gram emb) adj_orig edges_neg = Inr preds_neg" and
    pa: "preds_all = preds @ preds_neg" and
    la: "labels_all = replicate (length preds) 1 @ replicate (length preds) 0"
    by (auto simp: score_vectors_def Let_def split: sum.splits)
  have "length preds = length edges_pos" and "length preds_neg = length edges_neg"
    using p n by (simp_all add: score_edges_length)
  then show "length edges_pos = length edges_neg"
    using len by (simp add: pa la)
qed


theorem roc_labels_from_positive_count_witness:
  "score_vectors small_embedding small_graph [(0, 1)] [(0, 2)] =
     Inr ([sigmoid 2, sigmoid 2], [1, 0]) \<and>
   length [1, 0 :: real] = length [sigmoid 2, sigmoid 2] \<and>
   zip [sigmoid 2, sigmoid 2] [1, 0 :: real] = [(sigmoid 2, 1), (sigmoid 2, 0)] \<and>
   get_roc_score (\<lambda>y s. Inr 1) (\<lambda>y s. Inr 1) small_embedding small_graph [(0, 1)] [(0, 2)] =
     Inr (1, 1, [1, 0], [sigmoid 2, sigmoid 2]) \<and>
   length [(0, 1) :: edge] = length [(0, 2) :: edge] \<and>
   get_roc_score (\<lambda>y s. Inr 1) (\<lambda>y s. Inr 1) small_embedding small_graph [(0, 1)] [] =
     Inl ValueError"
proof -
  have sv: "score_vectors small_embedding small_graph [(0, 1)] [(0, 2)] =
     Inr ([sigmoid 2, sigmoid 2], [1, 0])"
    by (simp add: score_vectors_def score_edges_def gram_def small_embedding_def
        small_graph_def Let_def)
  have ok: "get_roc_score (\<lambda>y s. Inr 1) (\<lambda>y s. Inr 1) small_embedding small_graph [(0, 1)] [(0, 2)] =
     Inr (1, 1, [1, 0], [sigmoid 2, sigmoid 2])"
    unfolding get_roc_score_def sv by (simp add: sk_metric_def)
  have bad: "get_roc_score (\<lambda>y s. Inr 1) (\<lambda>y s. Inr 1) small_embedding small_graph [(0, 1)] [] =
     Inl ValueError"
    by (simp add: get_roc_score_def score_vectors_def score_edges_def gram_def
        small_embedding_def small_graph_def Let_def sk_metric_def)
  show ?thesis
    using sv ok bad
      roc_labels_from_positive_count [of small_embedding small_graph "[(0, 1)]" "[(0, 2)]"
        "[sigmoid 2, sigmoid 2]" "[1, 0]" "\<lambda>y s. Inr 1" "\<lambda>y s. Inr 1"
        "(1, 1, [1, 0], [sigmoid 2, sigmoid 2])"]
    by simp
qed

section \<open>Properties of the training loop\<close>

lemma session_after_front:
  "run_epoch s = Inr (s', c) \<Longrightarrow>
   session_after run_epoch s (Suc k) = session_after run_epoch s' k"
  by (induction k) (simp_all split: option.splits sum.splits)

lemma train_loop_trace:
  "train_loop epochs run_epoch st = Inr st' \<Longrightarrow>
   \<exists>new. reported st' = reported st @ new \<and>
         epoch st' = epoch st + int (length new) \<and>
         temp_train_loss st' = (if new = [] then temp_train_loss st else last new) \<and>
         \<not> (epoch st' < epochs \<and> exceeds_threshold (temp_train_loss st')) \<and>
         session_after run_epoch (sess st) (length new) = Some (sess st') \<and>
         (\<forall>k<length new.
            epoch st + int k < epochs \<and>
            exceeds_threshold (if k = 0 then temp_train_loss st else new ! (k - 1)) \<and>
            (\<exists>s1 s2. session_after run_epoch (sess st) k = Some s1 \<and>
                     run_epoch s1 = Inr (s2, new ! k)))"
proof (induction epochs run_epoch st rule: train_loop.induct)
  case (1 epochs run_epoch st)
  show ?case
  proof (cases "epoch st < epochs \<and> exceeds_threshold (temp_train_loss st)")
    case False
    with "1.prems" have "st' = st"
      by (auto simp: train_loop.simps [of epochs run_epoch st] split: if_splits)
    with False show ?thesis by simp
  next
    case True
    with "1.prems" obtain s1 c where
      step: "run_epoch (sess st) = Inr (s1, c)" and
      rest: "train_loop epochs run_epoch
               \<lparr>epoch = epoch st + 1, temp_train_loss = c, sess = s1,
                reported = reported st @ [c]\<rparr> = Inr st'"
      by (auto simp: train_loop.simps [of epochs run_epoch st] split: sum.splits)
    from "1.IH" [OF True step refl rest] obtain new where
      rep: "reported st' = (reported st @ [c]) @ new" and
      ep: "epoch st' = epoch st + 1 + int (length new)" and
      tmp: "temp_train_loss st' = (if new = [] then c else last new)" and
      stop: "\<not> (epoch st' < epochs \<and> exceeds_threshold (temp_train_loss st'))" and
      fin: "session_after run_epoch s1 (length new) = Some (sess st')" and
      each: "\<forall>k<length new.
               epoch st + 1 + int k < epochs \<and>
               exceeds_threshold (if k = 0 then c else new ! (k - 1)) \<and>
               (\<exists>sa sb. session_after run_epoch s1 k = Some sa \<and>
                        run_epoch sa = Inr (sb, new ! k))"
      by (auto cong: if_cong)
    have all: "epoch st + int k < epochs \<and>
            exceeds_threshold (if k = 0 then temp_train_loss st else (c # new) ! (k - 1)) \<and>
            (\<exists>sa sb. session_after run_epoch (sess st) k = Some sa \<and>
                     run_epoch sa = Inr (sb, (c # new) ! k))"
      if "k < length (c # new)" for k
    proof (cases k)
      case 0
      with True step show ?thesis by simp
    next
      case (Suc k')
      with that have "k' < length new" by simp
      with each have
        "epoch st + 1 + int k' < epochs"
        "exceeds_threshold (if k' = 0 then c else new ! (k' - 1))"
        "\<exists>sa sb. session_after run_epoch s1 k' = Some sa \<and> run_epoch sa = Inr (sb, new ! k')"
        by blast+
      then show ?thesis
        using Suc session_after_front [of run_epoch "sess st" s1 c k', OF step]
        by (cases k') (simp_all del: session_after.simps)
    qed
    have "reported st' = reported st @ (c # new)"
      using rep by simp
    moreover have "epoch st' = epoch st + int (length (c # new))"
      using ep by simp
    moreover have "temp_train_loss st' = (if c # new = [] then temp_train_loss st else last (c # new))"
      using tmp by simp
    moreover have "session_after run_epoch (sess st) (length (c # new)) = Some (sess st')"
      using fin session_after_front [of run_epoch "sess st" s1 c "length new", OF step] by simp
    ultimately show ?thesis
      using stop all by blast
  qed
qed

lemma train_loop_returns:
  "\<forall>s. \<exists>y. run_epoch s = Inr y \<Longrightarrow> \<exists>st'. train_loop epochs run_epoch st = Inr st'"
proof (induction epochs run_epoch st rule: train_loop.induct)
  case (1 epochs run_epoch st)
  show ?case
  proof (cases "epoch st < epochs \<and> exceeds_threshold (temp_train_loss st)")
    case False
    then show ?thesis
      by (auto simp: train_loop.simps [of epochs run_epoch st])
  next
    case True
    from "1.prems" obtain s1 c where step: "run_epoch (sess st) = Inr (s1, c)"
      by (metis surj_pair)
    from "1.IH" [OF True step refl "1.prems"] show ?thesis
      using True step by (simp add: train_loop.simps [of epochs run_epoch st])
  qed
qed

lemma loss_threshold_value: "loss_threshold = 8589935 / 2 ^ 33"
  by (simp only: loss_threshold_def float64_0001 float32_0001)

lemma loss_threshold_above: "(1 / 1000 :: real) < 8589935 / 2 ^ 33"
  by simp

text \<open>
  Claim C6, amended. Let the loop return after reporting the training losses
  \<open>reported\<close>. Epoch \<open>k + 1\<close> ran exactly when \<open>k < epochs\<close> and the loss read after
  epoch \<open>k\<close> (the float32 loss that epoch \<open>k\<close> itself returned; 1.0 before the first
  epoch) is greater than 0.001 in the float32 comparison: a number must be greater
  than \<open>8589935 / 2 ^ 33\<close>, the float32 nearest to 0.001, and \<open>nan\<close> is not greater.
  So the loop stops at the first \<open>k\<close> with \<open>k \<ge> epochs\<close> or a last loss that is not
  greater. If the body never raises, the loop returns.
\<close>

theorem training_loop_float32_stopping:
  "(training epochs run_epoch s0 = Inr st \<longrightarrow>
      epoch st = int (length (reported st)) \<and>
      temp_train_loss st = last_loss (reported st) (length (reported st)) \<and>
      (epochs \<le> epoch st \<or> \<not> exceeds_threshold (temp_train_loss st)) \<and>
      (\<forall>k\<le>length (reported st).
         (k < length (reported st)) =
           (int k < epochs \<and> exceeds_threshold (last_loss (reported st) k))) \<and>
      (\<forall>k<length (reported st).
         \<exists>s1 s2. session_after run_epoch s0 k = Some s1 \<and>
                 run_epoch s1 = Inr (s2, reported st ! k))) \<and>
   ((\<forall>s. \<exists>y. run_epoch s = Inr y) \<longrightarrow> (\<exists>st'. training epochs run_epoch s0 = Inr st')) \<and>
   (\<forall>x. exceeds_threshold (Finite x) = (8589935 / 2 ^ 33 < x)) \<and>
   \<not> exceeds_threshold NaN"
proof (intro conjI impI)
  assume run: "training epochs run_epoch s0 = Inr st"
  from run have "train_loop epochs run_epoch
      \<lparr>epoch = 0, temp_train_loss = Finite 1, sess = s0, reported = []\<rparr> = Inr st"
    by (simp add: training_def)
  from train_loop_trace [OF this] obtain new where
    rep: "reported st = new" and
    ep: "epoch st = int (length new)" and
    tmp: "temp_train_loss st = (if new = [] then Finite 1 else last new)" and
    stop: "\<not> (epoch st < epochs \<and> exceeds_threshold (temp_train_loss st))" and
    each: "\<forall>k<length new.
             int k < epochs \<and> exceeds_threshold (if k = 0 then Finite 1 else new ! (k - 1)) \<and>
             (\<exists>s1 s2. session_after run_epoch s0 k = Some s1 \<and>
                      run_epoch s1 = Inr (s2, new ! k))"
    by (auto cong: if_cong)
  show e: "epoch st = int (length (reported st))"
    by (simp add: ep rep)
  show t: "temp_train_loss st = last_loss (reported st) (length (reported st))"
    by (simp add: tmp rep last_loss_def last_conv_nth)
  show "epochs \<le> epoch st \<or> \<not> exceeds_threshold (temp_train_loss st)"
    using stop by auto
  show "\<forall>k\<le>length (reported st).
         (k < length (reported st)) =
           (int k < epochs \<and> exceeds_threshold (last_loss (reported st) k))"
  proof (intro allI impI)
    fix k assume le: "k \<le> length (reported st)"
    show "(k < length (reported st)) =
           (int k < epochs \<and> exceeds_threshold (last_loss (reported st) k))"
    proof (cases "k < length new")
      case True
      with each have "int k < epochs"
        and "exceeds_threshold (if k = 0 then Finite 1 else new ! (k - 1))"
        by blast+
      with True show ?thesis by (simp add: rep last_loss_def)
    next
      case False
      with le rep have "k = length (reported st)" by simp
      with stop e t show ?thesis by auto
    qed
  qed
  show "\<forall>k<length (reported st).
         \<exists>s1 s2. session_after run_epoch s0 k = Some s1 \<and>
                 run_epoch s1 = Inr (s2, reported st ! k)"
    using each by (simp add: rep)
next
  assume "\<forall>s. \<exists>y. run_epoch s = Inr y"
  then show "\<exists>st'. training epochs run_epoch s0 = Inr st'"
    unfolding training_def by (rule train_loop_returns)
next
  show "\<forall>x. exceeds_threshold (Finite x) = (8589935 / 2 ^ 33 < x)"
    by (simp add: loss_threshold_value)
next
  show "\<not> exceeds_threshold NaN" by simp
qed

lemma example_training:
  "training 5 example_run_epoch 0 =
     Inr \<lparr>epoch = 2, temp_train_loss = Finite (1 / 2048), sess = 2,
          reported = [Finite (1 / 2), Finite (1 / 2048)]\<rparr>"
  by (simp add: training_def train_loop.simps example_run_epoch_def numeral_2_eq_2
      loss_threshold_value)

theorem training_loop_float32_stopping_witness:
  "training 5 example_run_epoch 0 =
     Inr \<lparr>epoch = 2, temp_train_loss = Finite (1 / 2048), sess = 2,
          reported = [Finite (1 / 2), Finite (1 / 2048)]\<rparr> \<and>
   (1 < length [Finite (1 / 2), Finite (1 / 2048)]) =
     (int 1 < 5 \<and> exceeds_threshold (last_loss [Finite (1 / 2), Finite (1 / 2048)] 1)) \<and>
   (2 < length [Finite (1 / 2), Finite (1 / 2048)]) =
     (int 2 < 5 \<and> exceeds_threshold (last_loss [Finite (1 / 2), Finite (1 / 2048)] 2)) \<and>
   exceeds_threshold (Finite (1 / 2)) \<and> \<not> exceeds_threshold (Finite (1 / 2048)) \<and>
   (\<forall>s. \<exists>y. example_run_epoch s = Inr y)"
proof -
  have total: "\<forall>s. \<exists>y. example_run_epoch s = Inr y"
    by (simp add: example_run_epoch_def)
  from training_loop_float32_stopping [of 5 example_run_epoch 0
      "\<lparr>epoch = 2, temp_train_loss = Finite (1 / 2048), sess = 2,
        reported = [Finite (1 / 2), Finite (1 / 2048)]\<rparr>"] example_training
  have all: "\<forall>k\<le>length [Finite (1 / 2), Finite (1 / 2048)].
         (k < length [Finite (1 / 2), Finite (1 / 2048)]) =
           (int k < 5 \<and> exceeds_threshold (last_loss [Finite (1 / 2), Finite (1 / 2048)] k))"
    by simp
  have "(1 < length [Finite (1 / 2), Finite (1 / 2048)]) =
     (int 1 < 5 \<and> exceeds_threshold (last_loss [Finite (1 / 2), Finite (1 / 2048)] 1))"
    using all [rule_format, of 1] by simp
  moreover
  have "(2 < length [Finite (1 / 2), Finite (1 / 2048)]) =
     (int 2 < 5 \<and> exceeds_threshold (last_loss [Finite (1 / 2), Finite (1 / 2048)] 2))"
    using all [rule_format, of 2] by simp
  moreover have "exceeds_threshold (Finite (1 / 2)) \<and> \<not> exceeds_threshold (Finite (1 / 2048))"
    by (simp add: loss_threshold_value)
  ultimately show ?thesis using example_training total by blast
qed

text \<open>
  Claim C6 as stated fails when the first epoch reports the float32 loss
  \<open>8589935 / 2 ^ 33\<close>: the loss exceeds 0.001 and four epochs are left, yet the loop
  stops after the first epoch.
\<close>

theorem loss_above_0001_stops:
  "training 5 threshold_run_epoch 0 =
     Inr \<lparr>epoch = 1, temp_train_loss = Finite (8589935 / 2 ^ 33), sess = 1,
          reported = [Finite (8589935 / 2 ^ 33)]\<rparr> \<and>
   (1 / 1000 :: real) < 8589935 / 2 ^ 33 \<and> (1 :: int) < 5 \<and>
   on_grid 24 (- 126) (8589935 / 2 ^ 33)"
proof -
  have "training 5 threshold_run_epoch 0 =
     Inr \<lparr>epoch = 1, temp_train_loss = Finite (8589935 / 2 ^ 33), sess = 1,
          reported = [Finite (8589935 / 2 ^ 33)]\<rparr>"
    by (simp add: training_def train_loop.simps threshold_run_epoch_def loss_threshold_value)
  moreover have "on_grid 24 (- 126) (8589935 / 2 ^ 33)"
    unfolding on_grid_def
    by (rule exI [of _ 8589935], rule exI [of _ "- 33"]) (simp add: powr_minus_divide)
  ultimately show ?thesis by simp
qed

section \<open>What the samplers do guarantee\<close>

lemma num_edges_triu_card:
  "num_edges_triu adj0 =
     card {(i, j). i < j \<and> i < nrows adj0 \<and> j < ncols adj0 \<and> ent adj0 i j \<noteq> 0}"
proof -
  have "set (coords (triu (remove_diag adj0))) =
        {(i, j). i < j \<and> i < nrows adj0 \<and> j < ncols adj0 \<and> ent adj0 i j \<noteq> 0}"
    by (auto simp: set_coords triu_def remove_diag_def)
  then show ?thesis
    using distinct_card [OF distinct_coords, of "triu (remove_diag adj0)"]
    by (simp add: num_edges_triu_def sparse_to_tuple_def)
qed

lemma foldl_invariant:
  "(\<forall>c p. I c \<longrightarrow> I (accept c p)) \<Longrightarrow> I c \<Longrightarrow> I (foldl accept c ps)"
  by (induction ps arbitrary: c) simp_all

lemma rejection_loop_invariant:
  "(\<forall>c p. I c \<longrightarrow> I (accept c p)) \<Longrightarrow> I chosen \<Longrightarrow>
   rejection_loop accept n target draws chosen = Some (Inr (res, rest)) \<Longrightarrow> I res"
proof (induction accept n target draws chosen rule: rejection_loop.induct)
  case (1 accept n target draws chosen)
  note step = "1.prems"(1)
  show ?case
  proof (cases "length chosen < target")
    case False
    with "1.prems" show ?thesis
      by (simp add: rejection_loop.simps [of accept n target draws chosen])
  next
    case True
    define n_rnd where "n_rnd = target - length chosen"
    define chosen' where
      "chosen' = foldl accept chosen (zip (take n_rnd (take (2 * n_rnd) draws))
                                          (drop n_rnd (take (2 * n_rnd) draws)))"
    from True "1.prems"(3) have n: "n \<noteq> 0" and enough: "\<not> length draws < 2 * n_rnd"
      by (auto simp: n_rnd_def rejection_loop.simps [of accept n target draws chosen]
               split: if_splits)
    have inv: "I chosen'"
      unfolding chosen'_def using step "1.prems"(2) by (rule foldl_invariant)
    have run: "rejection_loop accept n target (drop (2 * n_rnd) draws) chosen' =
                 Some (Inr (res, rest))"
      using "1.prems"(3) True n enough
      by (simp add: n_rnd_def chosen'_def Let_def
          rejection_loop.simps [of accept n target draws chosen])
    show ?thesis
      using "1.IH" [OF True n, of n_rnd] enough inv run step
      by (simp add: n_rnd_def chosen'_def Let_def)
  qed
qed

lemma test_accept_ok:
  "test_negatives_ok edges_all c \<Longrightarrow> test_negatives_ok edges_all (test_accept edges_all c p)"
  by (cases p) (auto simp: test_accept_def test_negatives_ok_def ismember_iff)

lemma val_accept_ok:
  "val_negatives_ok tr va c \<Longrightarrow> val_negatives_ok tr va (val_accept tr va c p)"
  by (cases p) (auto simp: val_accept_def val_negatives_ok_def ismember_iff)


lemma np_delete_subset:
  "np_delete legacy arr obj = Inr res \<Longrightarrow> set res \<subseteq> set arr"
  by (auto simp: np_delete_def split: if_splits)

text \<open>
  Whenever the split returns: the test negatives avoid every stored entry of the
  matrix, the validation negatives avoid \<open>train_edges\<close> and \<open>val_edges\<close> in both
  orientations, and the three positive lists hold upper-triangle entries of the matrix.
\<close>

lemma sampled_negatives:
  assumes shuffle: "is_shuffle perm (num_edges_triu adj0)"
    and ok: "mask_test_edges legacy adj0 perm draws = Some (Inr r)"
  shows "test_negatives_ok (fst (sparse_to_tuple (remove_diag adj0))) (test_edges_false r)
       \<and> val_negatives_ok (train_edges r) (val_edges r) (val_edges_false r)
       \<and> set (train_edges r) \<union> set (val_edges r) \<union> set (test_edges r)
           \<subseteq> set (fst (sparse_to_tuple (triu (remove_diag adj0))))"
proof -
  define adj where "adj = remove_diag adj0"
  define edges where "edges = fst (sparse_to_tuple (triu adj))"
  define edges_all where "edges_all = fst (sparse_to_tuple adj)"
  define k where "k = length edges div 50"
  define val_idx where "val_idx = take k perm"
  define test_idx where "test_idx = take k (drop k perm)"
  define test_es where "test_es = map (\<lambda>i. edges ! i) test_idx"
  define val_es where "val_es = map (\<lambda>i. edges ! i) val_idx"
  have E: "num_edges_triu adj0 = length edges"
    by (simp add: num_edges_triu_def edges_def adj_def)
  have in_range: "i < length edges" if "i \<in> set perm" for i
    using shuffle that by (simp add: is_shuffle_def E)
  have test_sub: "set test_es \<subseteq> set edges"
    using in_range by (auto simp: test_es_def test_idx_def dest!: in_set_takeD in_set_dropD)
  have val_sub: "set val_es \<subseteq> set edges"
    using in_range by (auto simp: val_es_def val_idx_def dest!: in_set_takeD)
  from ok obtain train_es test_false d1 val_false d2 a_train where
    del: "np_delete legacy edges (test_idx @ val_idx) = Inr train_es" and
    loop1: "rejection_loop (test_accept edges_all) (nrows adj) (length test_es) draws []
              = Some (Inr (test_false, d1))" and
    loop2: "rejection_loop (val_accept train_es val_es) (nrows adj) (length val_es) d1 []
              = Some (Inr (val_false, d2))" and
    r: "r = \<lparr>adj_train = a_train, train_edges = train_es, val_edges = val_es,
             val_edges_false = val_false, test_edges = test_es,
             test_edges_false = test_false\<rparr>"
    unfolding mask_test_edges_def Let_def
      adj_def [symmetric] edges_def [symmetric] edges_all_def [symmetric]
      k_def [symmetric] val_idx_def [symmetric] test_idx_def [symmetric]
      test_es_def [symmetric] val_es_def [symmetric]
    by (auto split: sum.splits option.splits prod.splits)
  have "test_negatives_ok edges_all test_false"
    by (rule rejection_loop_invariant [OF _ _ loop1])
       (simp_all add: test_accept_ok, simp add: test_negatives_ok_def)
  moreover have "val_negatives_ok train_es val_es val_false"
    by (rule rejection_loop_invariant [OF _ _ loop2])
       (simp_all add: val_accept_ok, simp add: val_negatives_ok_def)
  moreover have "set train_es \<subseteq> set edges"
    using del by (rule np_delete_subset)
  ultimately show ?thesis
    using test_sub val_sub by (simp add: r edges_all_def edges_def adj_def)
qed

text \<open>
  For a matrix with a symmetric pattern of entries, a test negative is in neither
  orientation one of the positive edges.
\<close>

lemma test_negatives_disjoint:
  assumes shuffle: "is_shuffle perm (num_edges_triu adj0)"
    and ok: "mask_test_edges legacy adj0 perm draws = Some (Inr r)"
    and square: "nrows adj0 = ncols adj0"
    and sym: "\<forall>i j. (ent adj0 i j = 0) = (ent adj0 j i = 0)"
    and neg: "(i, j) \<in> set (test_edges_false r)"
  shows "(i, j) \<notin> set (train_edges r) \<union> set (val_edges r) \<union> set (test_edges r)
       \<and> (j, i) \<notin> set (train_edges r) \<union> set (val_edges r) \<union> set (test_edges r)"
proof -
  define edges_all where "edges_all = fst (sparse_to_tuple (remove_diag adj0))"
  define P where "P = set (train_edges r) \<union> set (val_edges r) \<union> set (test_edges r)"
  from sampled_negatives [OF shuffle ok]
  have t: "test_negatives_ok edges_all (test_edges_false r)"
    and sub: "P \<subseteq> set (fst (sparse_to_tuple (triu (remove_diag adj0))))"
    by (simp_all add: edges_all_def P_def)
  have P_all: "P \<subseteq> set edges_all"
    using sub by (auto simp: edges_all_def sparse_to_tuple_def set_coords triu_def split: if_splits)
  have mirror: "(b, a) \<in> set edges_all" if "(a, b) \<in> set edges_all" for a b
    using that square sym
    by (auto simp: edges_all_def sparse_to_tuple_def set_coords remove_diag_def split: if_splits)
  from t neg have "(i, j) \<notin> set edges_all"
    by (auto simp: test_negatives_ok_def)
  then have "(i, j) \<notin> P" and "(j, i) \<notin> P"
    using P_all mirror [of j i] by auto
  then show ?thesis by (simp add: P_def)
qed

subsection \<open>The training matrix\<close>


lemma count_list_distinct:
  "distinct xs \<Longrightarrow> count_list xs x = (if x \<in> set xs then 1 else 0)"
  by (induction xs) auto

lemma np_delete_distinct:
  assumes "np_delete legacy arr obj = Inr res" and "distinct arr"
  shows "distinct res"
proof -
  have res: "res = map (\<lambda>k. arr ! k) (filter (\<lambda>k. k \<notin> set obj) [0..<length arr])"
    using assms(1) by (auto simp: np_delete_def split: if_splits)
  have "inj_on (\<lambda>k. arr ! k) {..<length arr}"
    using assms(2) by (auto simp: inj_on_def nth_eq_iff_index_eq)
  then have "inj_on (\<lambda>k. arr ! k) (set (filter (\<lambda>k. k \<notin> set obj) [0..<length arr]))"
    by (rule inj_on_subset) auto
  then show ?thesis
    by (simp add: res distinct_map)
qed

text \<open>
  The training matrix that a returning split hands to \<open>preprocess_graph\<close> is the
  adjacency matrix of an undirected, unweighted graph without self-loops.
\<close>

lemma adj_train_is_adjacency:
  assumes ok: "mask_test_edges legacy adj0 perm draws = Some (Inr r)"
  shows "is_adjacency (adj_train r) \<and> nrows (adj_train r) = nrows adj0"
proof -
  define adj where "adj = remove_diag adj0"
  define edges where "edges = fst (sparse_to_tuple (triu adj))"
  from ok obtain train_es a_train where
    del: "np_delete legacy edges
            (take (length edges div 50) (drop (length edges div 50) perm)
             @ take (length edges div 50) perm) = Inr train_es" and
    add: "mat_add (csr_of_edges train_es (nrows adj) (ncols adj))
            (mat_transpose (csr_of_edges train_es (nrows adj) (ncols adj))) = Inr a_train" and
    r: "adj_train r = a_train"
    unfolding mask_test_edges_def Let_def adj_def [symmetric] edges_def [symmetric]
    by (auto split: sum.splits option.splits prod.splits)
  have sq: "nrows adj = ncols adj"
    using add by (auto simp: mat_add_def mat_transpose_def csr_of_edges_def split: if_splits)
  have a: "a_train = \<lparr>nrows = nrows adj, ncols = nrows adj,
             ent = (\<lambda>i j. real (count_list train_es (i, j)) + real (count_list train_es (j, i)))\<rparr>"
    using add sq by (auto simp: mat_add_def mat_transpose_def csr_of_edges_def split: if_splits)
  have "distinct edges"
    by (simp add: edges_def sparse_to_tuple_def distinct_coords)
  with del have d: "distinct train_es" by (rule np_delete_distinct)
  have "set train_es \<subseteq> set edges"
    using del by (rule np_delete_subset)
  then have upper: "i < j" if "(i, j) \<in> set train_es" for i j
    using that by (auto simp: edges_def sparse_to_tuple_def set_coords triu_def adj_def
        remove_diag_def split: if_splits)
  have cnt: "real (count_list train_es (i, j)) + real (count_list train_es (j, i)) = 0
           \<or> real (count_list train_es (i, j)) + real (count_list train_es (j, i)) = 1" for i j
    using upper [of i j] upper [of j i] by (auto simp: count_list_distinct [OF d])
  have diag: "real (count_list train_es (i, i)) + real (count_list train_es (i, i)) = 0" for i
    using upper [of i i] by (auto simp: count_list_distinct [OF d])
  have "is_adjacency a_train"
    unfolding is_adjacency_def list_all_upt a
    using cnt diag by (simp add: add.commute)
  moreover have "nrows a_train = nrows adj0"
    by (simp add: a adj_def remove_diag_def)
  ultimately show ?thesis by (simp add: r)
qed

end
